theory Spec2Isabelle
  imports Main
begin

section \<open>The pattern tree and the stitch positions (internal/model/work.go)\<close>

text \<open>
  The work-progress engine of stitch-map reads a pattern tree (sections, rows,
  instructions) and moves one persisted cursor through the flattened stitch sequence
  of the rows. Go's \<open>int\<close> and \<open>int64\<close> are modelled as \<open>int\<close>: the engine only
  compares identifiers, and adds or subtracts one from indices, lengths and stored
  counters. Indices and lengths of slices stay inside the 64-bit range. Of the sums on
  stored values, \<open>RowRepeatIndex + 1\<close> in \<open>AdvanceProgress\<close> wraps in Go at a
  stored \<open>RowRepeatIndex\<close> of \<open>2 ^ 63 - 1\<close>, and \<open>RepeatCount - 1\<close> in
  \<open>UndoProgress\<close> at a stored \<open>RepeatCount\<close> of \<open>- (2 ^ 63)\<close>; the model
  agrees with the code away from these two values. A well-formed tree has repeat counts
  of at least one, a cursor the engine writes in it has a \<open>RowRepeatIndex\<close> below the
  repeat count of its row, and the invariant of the cursor does not read
  \<open>RowRepeatIndex\<close>; the theorem on an arbitrary stored cursor that depends on
  \<open>RowRepeatIndex + 1\<close> has the bound \<open>RowRepeatIndex < 2 ^ 63 - 1\<close> as a
  hypothesis.

  A \<open>RowInstruction\<close> holds its children, so it is a datatype. Of every struct only
  the fields the engine reads are kept: display fields (names, labels, notes, stitch
  abbreviations), owners and timestamps are left out.
\<close>

datatype RowInstruction =
  RowInstruction (ID: int) (Count: int) (IsGroup: bool) (GroupRepeat: int)
    (Children: "RowInstruction list")

record StitchPos =
  InstructionID :: int
  StitchIndex :: int
  GroupRepeatIndex :: int

text \<open>
  Modelled from the spec: the field \<open>Instructions\<close> of \<open>Row\<close>. The engine reads
  \<open>row.Instructions\<close>, and the declaration of \<open>Row\<close> at hand does not list the
  field; by section 3 of the specification a row holds its ordered instructions, groups
  with their children. \<open>PatternSection.Rows\<close> is the row list of a section, in position
  order.
\<close>

record Row =
  ID :: int
  RepeatCount :: int
  Instructions :: "RowInstruction list"

record PatternSection =
  ID :: int
  Rows :: "Row list"

record WorkSession =
  ID :: int
  PatternID :: int
  Completed :: bool

record WorkProgress =
  SessionID :: int
  SectionID :: int
  RowID :: int
  RowRepeatIndex :: int
  InstructionID :: int
  StitchIndex :: int
  GroupRepeatIndex :: int
  StitchesCompletedInRow :: int

subsection \<open>FlattenInstructions\<close>

text \<open>
  The innermost loop \<open>for si := 0; si < cnt; si++ { out = append(out, StitchPos{iid, si, grp}) }\<close>.
\<close>

function emitStitches :: "int \<Rightarrow> int \<Rightarrow> int \<Rightarrow> int \<Rightarrow> StitchPos list \<Rightarrow> StitchPos list" where
  "emitStitches iid cnt grp si out =
     (if si < cnt
      then emitStitches iid cnt grp (si + 1)
             (out @ [\<lparr>StitchPos.InstructionID = iid, StitchIndex = si, GroupRepeatIndex = grp\<rparr>])
      else out)"
  by pat_completeness auto
termination
  by (relation "measure (\<lambda>(iid, cnt, grp, si, out). nat (cnt - si))") auto

declare emitStitches.simps [simp del]

text \<open>The loop \<open>for _, child := range ri.Children\<close> of one group repeat.\<close>

fun emitChildren :: "RowInstruction list \<Rightarrow> int \<Rightarrow> StitchPos list \<Rightarrow> StitchPos list" where
  "emitChildren [] grp out = out"
| "emitChildren (child # rest) grp out =
     emitChildren rest grp
       (emitStitches (RowInstruction.ID child) (Count child) grp 0 out)"

text \<open>The loop \<open>for grp := 0; grp < ri.GroupRepeat; grp++\<close>.\<close>

function emitGroup :: "RowInstruction \<Rightarrow> int \<Rightarrow> StitchPos list \<Rightarrow> StitchPos list" where
  "emitGroup ri grp out =
     (if grp < GroupRepeat ri
      then emitGroup ri (grp + 1) (emitChildren (Children ri) grp out)
      else out)"
  by pat_completeness auto
termination
  by (relation "measure (\<lambda>(ri, grp, out). nat (GroupRepeat ri - grp))") auto

declare emitGroup.simps [simp del]

text \<open>The outer loop \<open>for _, ri := range instructions\<close>.\<close>

fun flattenLoop :: "RowInstruction list \<Rightarrow> StitchPos list \<Rightarrow> StitchPos list" where
  "flattenLoop [] out = out"
| "flattenLoop (ri # rest) out =
     flattenLoop rest
       (if IsGroup ri then emitGroup ri 0 out
        else emitStitches (RowInstruction.ID ri) (Count ri) 0 0 out)"

definition FlattenInstructions :: "RowInstruction list \<Rightarrow> StitchPos list" where
  "FlattenInstructions instructions = flattenLoop instructions []"

subsection \<open>FindFlatIndex\<close>

definition posMatches :: "StitchPos \<Rightarrow> WorkProgress \<Rightarrow> bool" where
  "posMatches pos p \<longleftrightarrow>
     StitchPos.InstructionID pos = WorkProgress.InstructionID p \<and>
     StitchPos.StitchIndex pos = WorkProgress.StitchIndex p \<and>
     StitchPos.GroupRepeatIndex pos = WorkProgress.GroupRepeatIndex p"

text \<open>
  \<open>for i, pos := range flat { if ... { return i } }; return -1\<close>, with the loop
  counter \<open>i\<close> carried along.
\<close>

fun findFlatFrom :: "StitchPos list \<Rightarrow> WorkProgress \<Rightarrow> int \<Rightarrow> int" where
  "findFlatFrom [] p i = -1"
| "findFlatFrom (pos # rest) p i =
     (if posMatches pos p then i else findFlatFrom rest p (i + 1))"

definition FindFlatIndex :: "StitchPos list \<Rightarrow> WorkProgress \<Rightarrow> int" where
  "FindFlatIndex flat p = findFlatFrom flat p 0"

section \<open>The stored state\<close>

text \<open>
  The engine keeps its state in SQL tables. A table is modelled as the list of its rows:
  \<open>QueryRow\<close> with a \<open>WHERE\<close> clause reads the first matching row and fails with
  \<open>sql.ErrNoRows\<close> when there is none, \<open>UPDATE ... WHERE\<close> rewrites every matching
  row, \<open>INSERT\<close> appends a row. \<open>Completed\<close> stands for \<open>CompletedAt != nil\<close>;
  timestamps (\<open>last_active_at\<close>, \<open>updated_at\<close>) are not modelled, and neither are
  faults of the storage layer itself (a lost connection).

  \<open>LoadPatternFull\<close> returns the sections of a pattern in position order, each with
  its rows and their instructions. What it returns for a pattern identifier is taken as
  given: the map \<open>patterns\<close> holds the stored tree of every pattern, and a pattern
  that is not stored is the error of \<open>FindPatternByID\<close>.
\<close>

datatype error =
  ErrNoRows
| SectionNotFound int
| RowNotFound int
| NoInstructions
| UniqueViolation

record DB =
  work_sessions :: "WorkSession list"
  work_progress :: "WorkProgress list"
  patterns :: "int \<rightharpoonup> PatternSection list"

definition FindSessionByID :: "DB \<Rightarrow> int \<Rightarrow> error + WorkSession" where
  "FindSessionByID db id' =
     (case find (\<lambda>s. WorkSession.ID s = id') (work_sessions db) of
        None \<Rightarrow> Inl ErrNoRows
      | Some s \<Rightarrow> Inr s)"

definition GetProgress :: "DB \<Rightarrow> int \<Rightarrow> error + WorkProgress" where
  "GetProgress db sessionID =
     (case find (\<lambda>r. SessionID r = sessionID) (work_progress db) of
        None \<Rightarrow> Inl ErrNoRows
      | Some p \<Rightarrow> Inr p)"

definition LoadPatternFull :: "DB \<Rightarrow> int \<Rightarrow> error + PatternSection list" where
  "LoadPatternFull db patternID =
     (case patterns db patternID of
        None \<Rightarrow> Inl ErrNoRows
      | Some sections \<Rightarrow> Inr sections)"

definition MarkSessionCompleted :: "DB \<Rightarrow> int \<Rightarrow> DB" where
  "MarkSessionCompleted db id' =
     db\<lparr>work_sessions :=
          map (\<lambda>s. if WorkSession.ID s = id' then s\<lparr>Completed := True\<rparr> else s)
            (work_sessions db)\<rparr>"

text \<open>
  \<open>UPDATE work_sessions SET completed_at = NULL WHERE id = ?\<close>, as \<open>UndoProgress\<close> runs
  it. The index that allows one active session per user and pattern is not modelled:
  the sessions here never share a user and a pattern.
\<close>

definition clearCompleted :: "DB \<Rightarrow> int \<Rightarrow> DB" where
  "clearCompleted db id' =
     db\<lparr>work_sessions :=
          map (\<lambda>s. if WorkSession.ID s = id' then s\<lparr>Completed := False\<rparr> else s)
            (work_sessions db)\<rparr>"

text \<open>\<open>TouchSessionActivity\<close> writes \<open>last_active_at\<close> only.\<close>

definition TouchSessionActivity :: "DB \<Rightarrow> int \<Rightarrow> DB" where
  "TouchSessionActivity db id' = db"

text \<open>
  \<open>INSERT INTO work_progress\<close>: the column \<open>session_id\<close> is declared \<open>UNIQUE\<close>, so
  the statement fails when the session has a row already.
\<close>

definition insertProgress :: "DB \<Rightarrow> WorkProgress \<Rightarrow> (error + unit) \<times> DB" where
  "insertProgress db p =
     (if find (\<lambda>r. SessionID r = SessionID p) (work_progress db) \<noteq> None
      then (Inl UniqueViolation, db)
      else (Inr (), db\<lparr>work_progress := work_progress db @ [p]\<rparr>))"

definition saveProgress :: "DB \<Rightarrow> WorkProgress \<Rightarrow> DB" where
  "saveProgress db p =
     db\<lparr>work_progress :=
          map (\<lambda>r. if SessionID r = SessionID p
                    then r\<lparr>SectionID := SectionID p, RowID := RowID p,
                            RowRepeatIndex := RowRepeatIndex p,
                            WorkProgress.InstructionID := WorkProgress.InstructionID p,
                            WorkProgress.StitchIndex := WorkProgress.StitchIndex p,
                            WorkProgress.GroupRepeatIndex := WorkProgress.GroupRepeatIndex p,
                            StitchesCompletedInRow := StitchesCompletedInRow p\<rparr>
                    else r)
            (work_progress db)\<rparr>"

section \<open>Helpers of the navigator\<close>

text \<open>\<open>for i := range sections { if sections[i].ID == id { return &sections[i], i } }\<close>;
  \<open>None\<close> is the pair \<open>nil, -1\<close>.\<close>

fun findSectionFrom :: "PatternSection list \<Rightarrow> int \<Rightarrow> int \<Rightarrow> (PatternSection \<times> int) option" where
  "findSectionFrom [] id' i = None"
| "findSectionFrom (s # rest) id' i =
     (if PatternSection.ID s = id' then Some (s, i) else findSectionFrom rest id' (i + 1))"

definition findSectionByID :: "PatternSection list \<Rightarrow> int \<Rightarrow> (PatternSection \<times> int) option" where
  "findSectionByID sections id' = findSectionFrom sections id' 0"

fun findRowFrom :: "Row list \<Rightarrow> int \<Rightarrow> int \<Rightarrow> (Row \<times> int) option" where
  "findRowFrom [] id' i = None"
| "findRowFrom (r # rest) id' i =
     (if Row.ID r = id' then Some (r, i) else findRowFrom rest id' (i + 1))"

definition findRowByID :: "Row list \<Rightarrow> int \<Rightarrow> (Row \<times> int) option" where
  "findRowByID rows id' = findRowFrom rows id' 0"

definition setToFirstStitch :: "WorkProgress \<Rightarrow> StitchPos list \<Rightarrow> WorkProgress" where
  "setToFirstStitch p flat =
     (let p = (if length flat > 0
               then p\<lparr>WorkProgress.InstructionID := StitchPos.InstructionID (flat ! 0),
                       WorkProgress.StitchIndex := StitchPos.StitchIndex (flat ! 0),
                       WorkProgress.GroupRepeatIndex := StitchPos.GroupRepeatIndex (flat ! 0)\<rparr>
               else p)
      in p\<lparr>StitchesCompletedInRow := 0\<rparr>)"

definition setToLastStitch :: "WorkProgress \<Rightarrow> StitchPos list \<Rightarrow> WorkProgress" where
  "setToLastStitch p flat =
     (if length flat > 0
      then (let last = flat ! (length flat - 1)
            in p\<lparr>WorkProgress.InstructionID := StitchPos.InstructionID last,
                   WorkProgress.StitchIndex := StitchPos.StitchIndex last,
                   WorkProgress.GroupRepeatIndex := StitchPos.GroupRepeatIndex last,
                   StitchesCompletedInRow := int (length flat) - 1\<rparr>)
      else p)"

section \<open>InitProgress\<close>

text \<open>
  The two nested \<open>range\<close> loops of \<open>InitProgress\<close>. \<open>None\<close> means the loop ran to
  its end without returning; \<open>Some\<close> carries what the \<open>return\<close> inside the loop gives.
\<close>

fun initRows :: "DB \<Rightarrow> int \<Rightarrow> PatternSection \<Rightarrow> Row list \<Rightarrow> ((error + unit) \<times> DB) option" where
  "initRows db sessionID section [] = None"
| "initRows db sessionID section (row # rest) =
     (let flat = FlattenInstructions (Instructions row)
      in if length flat = 0 then initRows db sessionID section rest
         else (let first = flat ! 0
               in Some (insertProgress db
                         \<lparr>SessionID = sessionID, SectionID = PatternSection.ID section,
                          RowID = Row.ID row, RowRepeatIndex = 0,
                          InstructionID = StitchPos.InstructionID first,
                          StitchIndex = StitchPos.StitchIndex first,
                          GroupRepeatIndex = StitchPos.GroupRepeatIndex first,
                          StitchesCompletedInRow = 0\<rparr>)))"

fun initSections :: "DB \<Rightarrow> int \<Rightarrow> PatternSection list \<Rightarrow> ((error + unit) \<times> DB) option" where
  "initSections db sessionID [] = None"
| "initSections db sessionID (section # rest) =
     (case initRows db sessionID section (Rows section) of
        Some r \<Rightarrow> Some r
      | None \<Rightarrow> initSections db sessionID rest)"

definition InitProgress :: "DB \<Rightarrow> int \<Rightarrow> PatternSection list \<Rightarrow> (error + unit) \<times> DB" where
  "InitProgress db sessionID sections =
     (case initSections db sessionID sections of
        Some r \<Rightarrow> r
      | None \<Rightarrow> (Inl NoInstructions, db))"

section \<open>AdvanceProgress\<close>

text \<open>The inner loop \<open>for ri := range nextSection.Rows\<close>: the first row that flattens to
  a non-empty list.\<close>

fun scanRowsForward :: "Row list \<Rightarrow> Row option" where
  "scanRowsForward [] = None"
| "scanRowsForward (nextRow # rest) =
     (if length (FlattenInstructions (Instructions nextRow)) > 0 then Some nextRow
      else scanRowsForward rest)"

text \<open>The loop \<open>for si := sIdx + 1; si < len(sections); si++\<close>, entered with its first
  index.\<close>

function scanSectionsForward :: "PatternSection list \<Rightarrow> int \<Rightarrow> (PatternSection \<times> Row) option" where
  "scanSectionsForward sections si =
     (if si < int (length sections)
      then (let nextSection = sections ! nat si
            in case scanRowsForward (Rows nextSection) of
                 Some nextRow \<Rightarrow> Some (nextSection, nextRow)
               | None \<Rightarrow> scanSectionsForward sections (si + 1))
      else None)"
  by pat_completeness auto
termination
  by (relation "measure (\<lambda>(sections, si). nat (int (length sections) - si))") auto

declare scanSectionsForward.simps [simp del]

text \<open>
  The end of \<open>AdvanceProgress\<close>, from the comment \<open>Section exhausted\<close> on: the scan of
  the later sections, and the completion of the session when it finds nothing.
\<close>

definition sectionExhausted ::
  "DB \<Rightarrow> int \<Rightarrow> PatternSection list \<Rightarrow> int \<Rightarrow> WorkProgress \<Rightarrow> (error + bool) \<times> DB" where
  "sectionExhausted db sessionID sections sIdx newProg =
     (case (if sIdx + 1 < int (length sections)
            then scanSectionsForward sections (sIdx + 1) else None) of
        Some (nextSection, nextRow) \<Rightarrow>
          (let nextFlat = FlattenInstructions (Instructions nextRow);
               newProg = setToFirstStitch
                 (newProg\<lparr>SectionID := PatternSection.ID nextSection,
                           RowID := Row.ID nextRow\<rparr>) nextFlat
           in (Inr False, TouchSessionActivity (saveProgress db newProg) sessionID))
      | None \<Rightarrow> (Inr True, MarkSessionCompleted db sessionID))"

definition AdvanceProgress :: "DB \<Rightarrow> int \<Rightarrow> (error + bool) \<times> DB" where
  "AdvanceProgress db sessionID =
     (case FindSessionByID db sessionID of
        Inl err \<Rightarrow> (Inl err, db)
      | Inr session \<Rightarrow>
     if Completed session then (Inr True, db) else
     (case GetProgress db sessionID of
        Inl err \<Rightarrow> (Inl err, db)
      | Inr progress \<Rightarrow>
     (case LoadPatternFull db (PatternID session) of
        Inl err \<Rightarrow> (Inl err, db)
      | Inr sections \<Rightarrow>
     (case findSectionByID sections (SectionID progress) of
        None \<Rightarrow> (Inl (SectionNotFound (SectionID progress)), db)
      | Some (section, sIdx) \<Rightarrow>
     (case findRowByID (Rows section) (RowID progress) of
        None \<Rightarrow> (Inl (RowNotFound (RowID progress)), db)
      | Some (row, rIdx) \<Rightarrow>
     (let flat = FlattenInstructions (Instructions row);
          curIdx = FindFlatIndex flat progress;
          newProg = progress
      in
      if curIdx + 1 < int (length flat) then
        (let next = flat ! nat (curIdx + 1);
             newProg = newProg\<lparr>WorkProgress.InstructionID := StitchPos.InstructionID next,
                                WorkProgress.StitchIndex := StitchPos.StitchIndex next,
                                WorkProgress.GroupRepeatIndex := StitchPos.GroupRepeatIndex next,
                                StitchesCompletedInRow := curIdx + 1\<rparr>
         in (Inr False, TouchSessionActivity (saveProgress db newProg) sessionID))
      else
      (let newProg = newProg\<lparr>StitchesCompletedInRow := 0\<rparr> in
       if RowRepeatIndex progress + 1 < RepeatCount row then
         (let newProg = setToFirstStitch
                (newProg\<lparr>RowRepeatIndex := RowRepeatIndex progress + 1\<rparr>) flat
          in (Inr False, TouchSessionActivity (saveProgress db newProg) sessionID))
       else
       (let newProg = newProg\<lparr>RowRepeatIndex := 0\<rparr> in
        if rIdx + 1 < int (length (Rows section)) then
          (let nextRow = Rows section ! nat (rIdx + 1);
               nextFlat = FlattenInstructions (Instructions nextRow)
           in if length nextFlat > 0 then
                (let newProg = setToFirstStitch (newProg\<lparr>RowID := Row.ID nextRow\<rparr>) nextFlat
                 in (Inr False, TouchSessionActivity (saveProgress db newProg) sessionID))
              else sectionExhausted db sessionID sections sIdx newProg)
        else sectionExhausted db sessionID sections sIdx newProg))))))))"

section \<open>UndoProgress\<close>

text \<open>The loop \<open>for ri := len(prevSection.Rows) - 1; ri >= 0; ri--\<close>.\<close>

function scanRowsBackward :: "Row list \<Rightarrow> int \<Rightarrow> Row option" where
  "scanRowsBackward rows ri =
     (if ri \<ge> 0
      then (let prevRow = rows ! nat ri
            in if length (FlattenInstructions (Instructions prevRow)) > 0 then Some prevRow
               else scanRowsBackward rows (ri - 1))
      else None)"
  by pat_completeness auto
termination
  by (relation "measure (\<lambda>(rows, ri). nat (ri + 1))") auto

declare scanRowsBackward.simps [simp del]

text \<open>The loop \<open>for si := sIdx - 1; si >= 0; si--\<close>.\<close>

function scanSectionsBackward :: "PatternSection list \<Rightarrow> int \<Rightarrow> (PatternSection \<times> Row) option" where
  "scanSectionsBackward sections si =
     (if si \<ge> 0
      then (let prevSection = sections ! nat si
            in case scanRowsBackward (Rows prevSection) (int (length (Rows prevSection)) - 1) of
                 Some prevRow \<Rightarrow> Some (prevSection, prevRow)
               | None \<Rightarrow> scanSectionsBackward sections (si - 1))
      else None)"
  by pat_completeness auto
termination
  by (relation "measure (\<lambda>(sections, si). nat (si + 1))") auto

declare scanSectionsBackward.simps [simp del]

text \<open>
  The three statements every moving branch of \<open>UndoProgress\<close> ends with: save the
  cursor, clear the completion when the session was completed, touch the session.
\<close>

definition undoCommit :: "DB \<Rightarrow> WorkSession \<Rightarrow> int \<Rightarrow> WorkProgress \<Rightarrow> (error + unit) \<times> DB" where
  "undoCommit db session sessionID newProg =
     (let db = saveProgress db newProg;
          db = (if Completed session then clearCompleted db sessionID else db)
      in (Inr (), TouchSessionActivity db sessionID))"

text \<open>The end of \<open>UndoProgress\<close>, from the comment \<open>At first row of section\<close> on.\<close>

definition atFirstRowOfSection ::
  "DB \<Rightarrow> WorkSession \<Rightarrow> int \<Rightarrow> PatternSection list \<Rightarrow> int \<Rightarrow> WorkProgress \<Rightarrow> (error + unit) \<times> DB" where
  "atFirstRowOfSection db session sessionID sections sIdx newProg =
     (case (if sIdx > 0 then scanSectionsBackward sections (sIdx - 1) else None) of
        Some (prevSection, prevRow) \<Rightarrow>
          (let prevFlat = FlattenInstructions (Instructions prevRow);
               newProg = setToLastStitch
                 (newProg\<lparr>SectionID := PatternSection.ID prevSection,
                           RowID := Row.ID prevRow,
                           RowRepeatIndex := RepeatCount prevRow - 1\<rparr>) prevFlat
           in undoCommit db session sessionID newProg)
      | None \<Rightarrow> (Inr (), db))"

definition UndoProgress :: "DB \<Rightarrow> int \<Rightarrow> (error + unit) \<times> DB" where
  "UndoProgress db sessionID =
     (case FindSessionByID db sessionID of
        Inl err \<Rightarrow> (Inl err, db)
      | Inr session \<Rightarrow>
     (case GetProgress db sessionID of
        Inl err \<Rightarrow> (Inl err, db)
      | Inr progress \<Rightarrow>
     (case LoadPatternFull db (PatternID session) of
        Inl err \<Rightarrow> (Inl err, db)
      | Inr sections \<Rightarrow>
     (case findSectionByID sections (SectionID progress) of
        None \<Rightarrow> (Inl (SectionNotFound (SectionID progress)), db)
      | Some (section, sIdx) \<Rightarrow>
     (case findRowByID (Rows section) (RowID progress) of
        None \<Rightarrow> (Inl (RowNotFound (RowID progress)), db)
      | Some (row, rIdx) \<Rightarrow>
     (let flat = FlattenInstructions (Instructions row);
          curIdx = FindFlatIndex flat progress;
          newProg = progress
      in
      if curIdx > 0 then
        (let prev = flat ! nat (curIdx - 1);
             newProg = newProg\<lparr>WorkProgress.InstructionID := StitchPos.InstructionID prev,
                                WorkProgress.StitchIndex := StitchPos.StitchIndex prev,
                                WorkProgress.GroupRepeatIndex := StitchPos.GroupRepeatIndex prev,
                                StitchesCompletedInRow := curIdx - 1\<rparr>
         in undoCommit db session sessionID newProg)
      else
      if RowRepeatIndex progress > 0 then
        (let newProg = setToLastStitch
               (newProg\<lparr>RowRepeatIndex := RowRepeatIndex progress - 1\<rparr>) flat
         in undoCommit db session sessionID newProg)
      else
      if rIdx > 0 then
        (let prevRow = Rows section ! nat (rIdx - 1);
             prevFlat = FlattenInstructions (Instructions prevRow)
         in if length prevFlat > 0 then
              (let newProg = setToLastStitch
                     (newProg\<lparr>RowID := Row.ID prevRow,
                               RowRepeatIndex := RepeatCount prevRow - 1\<rparr>) prevFlat
               in undoCommit db session sessionID newProg)
            else atFirstRowOfSection db session sessionID sections sIdx newProg)
      else atFirstRowOfSection db session sessionID sections sIdx newProg))))))"

subsection \<open>The flattening as the specification words it\<close>

text \<open>
  Section 4.1 of the specification: an instruction emits \<open>count\<close> units with
  \<open>stitchIndex\<close> 0..count-1; a group walks, for each \<open>groupRepeatIndex\<close> in
  0..groupRepeat-1, its children in order; a top-level atomic instruction emits with
  \<open>groupRepeatIndex\<close> 0.
\<close>

definition unitsOf :: "RowInstruction \<Rightarrow> int \<Rightarrow> StitchPos list" where
  "unitsOf c grp =
     map (\<lambda>si. \<lparr>StitchPos.InstructionID = RowInstruction.ID c, StitchIndex = si,
                GroupRepeatIndex = grp\<rparr>) [0..Count c - 1]"

definition groupRepeatUnits :: "RowInstruction \<Rightarrow> int \<Rightarrow> StitchPos list" where
  "groupRepeatUnits ri grp = concat (map (\<lambda>c. unitsOf c grp) (Children ri))"

definition instructionUnits :: "RowInstruction \<Rightarrow> StitchPos list" where
  "instructionUnits ri =
     (if IsGroup ri then concat (map (groupRepeatUnits ri) [0..GroupRepeat ri - 1])
      else unitsOf ri 0)"

definition flatten_spec :: "RowInstruction list \<Rightarrow> StitchPos list" where
  "flatten_spec instructions = concat (map instructionUnits instructions)"

text \<open>All instruction identifiers of a row: top-level ones and group children.\<close>

definition allInstructionIDs :: "RowInstruction list \<Rightarrow> int list" where
  "allInstructionIDs instructions =
     concat (map (\<lambda>ri. RowInstruction.ID ri # map RowInstruction.ID (Children ri)) instructions)"

section \<open>Notions used to state the properties\<close>

subsection \<open>Scanning for a non-empty row\<close>

text \<open>
  A row is non-empty when it flattens to at least one stitch position. \<open>rowPairs\<close>
  lists the rows of a pattern in reading order, each with its section, and
  \<open>firstNonEmptyRow\<close> is the first non-empty row in that order.
  \<open>firstUnitCursor\<close> is the cursor of a session on the first stitch position of a row,
  in the row's first repeat.
\<close>

definition nonEmptyRow :: "Row \<Rightarrow> bool" where
  "nonEmptyRow r \<longleftrightarrow> FlattenInstructions (Instructions r) \<noteq> []"

definition rowPairs :: "PatternSection list \<Rightarrow> (PatternSection \<times> Row) list" where
  "rowPairs sections = concat (map (\<lambda>s. map (Pair s) (Rows s)) sections)"

definition firstNonEmptyRow :: "PatternSection list \<Rightarrow> (PatternSection \<times> Row) option" where
  "firstNonEmptyRow sections = find (\<lambda>(s, r). nonEmptyRow r) (rowPairs sections)"

definition firstUnitCursor :: "int \<Rightarrow> PatternSection \<Rightarrow> Row \<Rightarrow> WorkProgress" where
  "firstUnitCursor sessionID s r =
     \<lparr>SessionID = sessionID, SectionID = PatternSection.ID s, RowID = Row.ID r,
      RowRepeatIndex = 0,
      InstructionID = StitchPos.InstructionID (FlattenInstructions (Instructions r) ! 0),
      StitchIndex = StitchPos.StitchIndex (FlattenInstructions (Instructions r) ! 0),
      GroupRepeatIndex = StitchPos.GroupRepeatIndex (FlattenInstructions (Instructions r) ! 0),
      StitchesCompletedInRow = 0\<rparr>"

subsection \<open>Calls in sequence and the loaded state\<close>

text \<open>\<open>advanceTimes n\<close> calls \<open>AdvanceProgress\<close> \<open>n\<close> times in a row and collects
  what each call returns.\<close>

fun advanceTimes :: "nat \<Rightarrow> DB \<Rightarrow> int \<Rightarrow> (error + bool) list \<times> DB" where
  "advanceTimes 0 db sessionID = ([], db)"
| "advanceTimes (Suc n) db sessionID =
     (let (r, db1) = AdvanceProgress db sessionID;
          (results, db2) = advanceTimes n db1 sessionID
      in (r # results, db2))"

text \<open>
  \<open>loaded\<close> names what \<open>AdvanceProgress\<close> and \<open>UndoProgress\<close> read before they
  move the cursor: the session, its cursor, the pattern tree, and the section and the row
  the cursor names, each with its index.
\<close>

definition loaded ::
  "DB \<Rightarrow> int \<Rightarrow> WorkSession \<Rightarrow> WorkProgress \<Rightarrow> PatternSection list \<Rightarrow>
   PatternSection \<Rightarrow> int \<Rightarrow> Row \<Rightarrow> int \<Rightarrow> bool" where
  "loaded db sessionID session progress sections section sIdx row rIdx \<longleftrightarrow>
     FindSessionByID db sessionID = Inr session \<and>
     GetProgress db sessionID = Inr progress \<and>
     LoadPatternFull db (PatternID session) = Inr sections \<and>
     findSectionByID sections (SectionID progress) = Some (section, sIdx) \<and>
     findRowByID (Rows section) (RowID progress) = Some (row, rIdx)"

subsection \<open>Well-formed trees and the cursor invariant\<close>

text \<open>
  The identifiers of sections and of the rows of a section are primary keys of their
  tables: no two sections of a pattern and no two rows of a section share one.
\<close>

definition wellFormedIDs :: "PatternSection list \<Rightarrow> bool" where
  "wellFormedIDs sections \<longleftrightarrow>
     distinct (map PatternSection.ID sections) \<and>
     (\<forall>s\<in>set sections. distinct (map Row.ID (Rows s)))"

text \<open>
  The invariant of the cursor (section 3 of the specification): the section and the row
  the cursor names exist, and the cursor's triple is the stitch position at index
  \<open>StitchesCompletedInRow\<close> of the row's flattened sequence.
\<close>

definition cursorInvariant :: "PatternSection list \<Rightarrow> WorkProgress \<Rightarrow> bool" where
  "cursorInvariant sections p =
     (case findSectionByID sections (SectionID p) of
        None \<Rightarrow> False
      | Some (section, sIdx) \<Rightarrow>
          (case findRowByID (Rows section) (RowID p) of
             None \<Rightarrow> False
           | Some (row, rIdx) \<Rightarrow>
               (let flat = FlattenInstructions (Instructions row)
                in 0 \<le> StitchesCompletedInRow p \<and>
                   StitchesCompletedInRow p < int (length flat) \<and>
                   posMatches (flat ! nat (StitchesCompletedInRow p)) p)))"

text \<open>The last non-empty row in reading order, and the cursor on the last stitch
  position of the last repeat of a row.\<close>

definition lastNonEmptyRow :: "PatternSection list \<Rightarrow> (PatternSection \<times> Row) option" where
  "lastNonEmptyRow sections = find (\<lambda>(s, r). nonEmptyRow r) (rev (rowPairs sections))"

definition lastUnitCursor :: "int \<Rightarrow> PatternSection \<Rightarrow> Row \<Rightarrow> WorkProgress" where
  "lastUnitCursor sessionID s r =
     (let flat = FlattenInstructions (Instructions r)
      in \<lparr>SessionID = sessionID, SectionID = PatternSection.ID s, RowID = Row.ID r,
          RowRepeatIndex = RepeatCount r - 1,
          InstructionID = StitchPos.InstructionID (flat ! (length flat - 1)),
          StitchIndex = StitchPos.StitchIndex (flat ! (length flat - 1)),
          GroupRepeatIndex = StitchPos.GroupRepeatIndex (flat ! (length flat - 1)),
          StitchesCompletedInRow = int (length flat) - 1\<rparr>)"

subsection \<open>Positions of the cursor in the tree\<close>

text \<open>
  A row is empty when it flattens to no stitch position, a section is empty when all its
  rows are. A well-formed tree is one the authoring side stores: identifiers are primary
  keys, so the sections of a pattern, the rows of a section and the instructions of a row
  have distinct identifiers, and every row has a repeat count of at least one.
\<close>

definition emptyRow :: "Row \<Rightarrow> bool" where
  "emptyRow r \<longleftrightarrow> FlattenInstructions (Instructions r) = []"

definition emptySection :: "PatternSection \<Rightarrow> bool" where
  "emptySection s \<longleftrightarrow> list_all emptyRow (Rows s)"

definition wellFormedTree :: "PatternSection list \<Rightarrow> bool" where
  "wellFormedTree sections \<longleftrightarrow>
     wellFormedIDs sections \<and>
     (\<forall>s\<in>set sections. \<forall>r\<in>set (Rows s).
        1 \<le> RepeatCount r \<and> distinct (allInstructionIDs (Instructions r)))"

text \<open>
  A position is a place of the cursor in the tree: the current section with the sections
  before and after it, the current row with the rows before and after it in that
  section, the repeat of the row and the index of the unit in the row's flattened
  sequence. \<open>cursorOf\<close> is the cursor record the engine stores at a position.
\<close>

record Position =
  secsBefore :: "PatternSection list"
  curSection :: PatternSection
  secsAfter :: "PatternSection list"
  rowsBefore :: "Row list"
  curRow :: Row
  rowsAfter :: "Row list"
  repeatIdx :: nat
  unitIdx :: nat

definition positionIn :: "PatternSection list \<Rightarrow> Position \<Rightarrow> bool" where
  "positionIn sections pos \<longleftrightarrow>
     sections = secsBefore pos @ curSection pos # secsAfter pos \<and>
     Rows (curSection pos) = rowsBefore pos @ curRow pos # rowsAfter pos \<and>
     int (repeatIdx pos) < RepeatCount (curRow pos) \<and>
     unitIdx pos < length (FlattenInstructions (Instructions (curRow pos)))"

definition cursorOf :: "int \<Rightarrow> Position \<Rightarrow> WorkProgress" where
  "cursorOf sessionID pos =
     (let flat = FlattenInstructions (Instructions (curRow pos))
      in \<lparr>SessionID = sessionID, SectionID = PatternSection.ID (curSection pos),
          RowID = Row.ID (curRow pos), RowRepeatIndex = int (repeatIdx pos),
          InstructionID = StitchPos.InstructionID (flat ! unitIdx pos),
          StitchIndex = StitchPos.StitchIndex (flat ! unitIdx pos),
          GroupRepeatIndex = StitchPos.GroupRepeatIndex (flat ! unitIdx pos),
          StitchesCompletedInRow = int (unitIdx pos)\<rparr>)"

text \<open>
  The first and the last position of a list of sections: the first unit of the first
  non-empty row, and the last unit of the last repeat of the last non-empty row.
\<close>

definition initialPosition :: "PatternSection list \<Rightarrow> Position option" where
  "initialPosition sections =
     (case dropWhile emptySection sections of
        [] \<Rightarrow> None
      | s # ss \<Rightarrow>
          (case dropWhile emptyRow (Rows s) of
             [] \<Rightarrow> None
           | r # rs \<Rightarrow>
               Some \<lparr>secsBefore = takeWhile emptySection sections, curSection = s,
                     secsAfter = ss, rowsBefore = takeWhile emptyRow (Rows s), curRow = r,
                     rowsAfter = rs, repeatIdx = 0, unitIdx = 0\<rparr>))"

definition finalPosition :: "PatternSection list \<Rightarrow> Position option" where
  "finalPosition sections =
     (case dropWhile emptySection (rev sections) of
        [] \<Rightarrow> None
      | s # ss \<Rightarrow>
          (case dropWhile emptyRow (rev (Rows s)) of
             [] \<Rightarrow> None
           | r # rs \<Rightarrow>
               Some \<lparr>secsBefore = rev ss, curSection = s,
                     secsAfter = rev (takeWhile emptySection (rev sections)),
                     rowsBefore = rev rs, curRow = r,
                     rowsAfter = rev (takeWhile emptyRow (rev (Rows s))),
                     repeatIdx = nat (RepeatCount r - 1),
                     unitIdx = length (FlattenInstructions (Instructions r)) - 1\<rparr>))"

text \<open>
  The position after and before a position, as sections 4.2 of the specification words
  Advance and Undo: within the row, then to the next (previous) repeat, then to the row
  right after (before) when it is non-empty, else into the later (earlier) sections.
  \<open>None\<close> is the end (the start) of the pattern.
\<close>

definition nextPosition :: "Position \<Rightarrow> Position option" where
  "nextPosition pos =
     (if unitIdx pos + 1 < length (FlattenInstructions (Instructions (curRow pos)))
      then Some (pos\<lparr>unitIdx := unitIdx pos + 1\<rparr>)
      else if int (repeatIdx pos) + 1 < RepeatCount (curRow pos)
      then Some (pos\<lparr>repeatIdx := repeatIdx pos + 1, unitIdx := 0\<rparr>)
      else if rowsAfter pos \<noteq> [] \<and> \<not> emptyRow (hd (rowsAfter pos))
      then Some (pos\<lparr>rowsBefore := rowsBefore pos @ [curRow pos],
                       curRow := hd (rowsAfter pos), rowsAfter := tl (rowsAfter pos),
                       repeatIdx := 0, unitIdx := 0\<rparr>)
      else map_option
             (\<lambda>p. p\<lparr>secsBefore := secsBefore pos @ curSection pos # secsBefore p\<rparr>)
             (initialPosition (secsAfter pos)))"




subsection \<open>Counting stitch units\<close>

text \<open>
  \<open>totalUnits\<close> sums the units of all rows over all their repeats. \<open>visitedUnits\<close>
  counts only the rows Advance visits: in each section, the run of consecutive non-empty
  rows that starts at the section's first non-empty row. \<open>remaining\<close> counts the units
  from a position to the end of that walk, the unit of the position included.
  \<open>noSkippedRows\<close> says that in no section a non-empty row is directly followed by an
  empty row and later by a non-empty one.
\<close>

definition rowUnits :: "Row \<Rightarrow> nat" where
  "rowUnits r = nat (RepeatCount r) * length (FlattenInstructions (Instructions r))"

definition runUnits :: "Row list \<Rightarrow> nat" where
  "runUnits rows = sum_list (map rowUnits (takeWhile (\<lambda>r. \<not> emptyRow r) rows))"

definition sectionUnits :: "PatternSection \<Rightarrow> nat" where
  "sectionUnits s = runUnits (dropWhile emptyRow (Rows s))"

definition visitedUnits :: "PatternSection list \<Rightarrow> nat" where
  "visitedUnits sections = sum_list (map sectionUnits sections)"

definition totalUnits :: "PatternSection list \<Rightarrow> nat" where
  "totalUnits sections = sum_list (map (\<lambda>s. sum_list (map rowUnits (Rows s))) sections)"

definition remaining :: "Position \<Rightarrow> nat" where
  "remaining pos =
     (length (FlattenInstructions (Instructions (curRow pos))) - unitIdx pos) +
     (nat (RepeatCount (curRow pos)) - 1 - repeatIdx pos) *
       length (FlattenInstructions (Instructions (curRow pos))) +
     runUnits (rowsAfter pos) + visitedUnits (secsAfter pos)"

fun rowsContiguous :: "Row list \<Rightarrow> bool" where
  "rowsContiguous (r # r2 # rs) =
     ((if \<not> emptyRow r \<and> emptyRow r2 then list_all emptyRow rs else True) \<and>
      rowsContiguous (r2 # rs))"
| "rowsContiguous rows = True"

definition noSkippedRows :: "PatternSection list \<Rightarrow> bool" where
  "noSkippedRows sections \<longleftrightarrow> list_all (\<lambda>s. rowsContiguous (Rows s)) sections"

subsection \<open>Concrete patterns\<close>

text \<open>
  The scenario of section 8 of the specification: one section with Row A (one atomic
  instruction, count 3) and Row B (one group, repeat 2, children sc x 1 and inc x 1);
  session 7 works pattern 5.
\<close>

definition scenario_rowA :: Row where
  "scenario_rowA = \<lparr>Row.ID = 10, RepeatCount = 1, Instructions = [RowInstruction 100 3 False 1 []]\<rparr>"

definition scenario_rowB :: Row where
  "scenario_rowB = \<lparr>Row.ID = 11, RepeatCount = 1, Instructions =
     [RowInstruction 101 1 True 2 [RowInstruction 102 1 False 1 [], RowInstruction 103 1 False 1 []]]\<rparr>"

definition scenario_sections :: "PatternSection list" where
  "scenario_sections = [\<lparr>PatternSection.ID = 1, Rows = [scenario_rowA, scenario_rowB]\<rparr>]"

definition scenario_db :: DB where
  "scenario_db = \<lparr>work_sessions = [\<lparr>WorkSession.ID = 7, PatternID = 5, Completed = False\<rparr>],
          work_progress = [], patterns = [5 \<mapsto> scenario_sections]\<rparr>"

text \<open>The scenario with a cursor whose instruction 999 is not in Row A, with a cursor
  whose instruction 999 is not in Row B, and with the cursor on the last stitch position
  of Row B.\<close>

definition stale_db :: DB where
  "stale_db = scenario_db\<lparr>work_progress :=
     [\<lparr>SessionID = 7, SectionID = 1, RowID = 10, RowRepeatIndex = 0, InstructionID = 999,
       StitchIndex = 0, GroupRepeatIndex = 0, StitchesCompletedInRow = 1\<rparr>]\<rparr>"

definition stale_rowB_db :: DB where
  "stale_rowB_db = scenario_db\<lparr>work_progress :=
     [\<lparr>SessionID = 7, SectionID = 1, RowID = 11, RowRepeatIndex = 0, InstructionID = 999,
       StitchIndex = 0, GroupRepeatIndex = 0, StitchesCompletedInRow = 2\<rparr>]\<rparr>"

definition last_unit_db :: DB where
  "last_unit_db = scenario_db\<lparr>work_progress :=
     [\<lparr>SessionID = 7, SectionID = 1, RowID = 11, RowRepeatIndex = 0, InstructionID = 103,
       StitchIndex = 0, GroupRepeatIndex = 1, StitchesCompletedInRow = 3\<rparr>]\<rparr>"

text \<open>The scenario with the cursor on the last stitch position of Row A.\<close>

definition row_end_db :: DB where
  "row_end_db = scenario_db\<lparr>work_progress :=
     [\<lparr>SessionID = 7, SectionID = 1, RowID = 10, RowRepeatIndex = 0, InstructionID = 100,
       StitchIndex = 2, GroupRepeatIndex = 0, StitchesCompletedInRow = 2\<rparr>]\<rparr>"

text \<open>A pattern with an empty row between two non-empty rows of its first section, and
  a second section; and a pattern of one section with an empty row between a row of two
  stitches and a row of one.\<close>

definition gap_sections :: "PatternSection list" where
  "gap_sections =
     [\<lparr>PatternSection.ID = 1, Rows =
         [\<lparr>Row.ID = 10, RepeatCount = 1, Instructions = [RowInstruction 100 1 False 1 []]\<rparr>,
          \<lparr>Row.ID = 11, RepeatCount = 1, Instructions = []\<rparr>,
          \<lparr>Row.ID = 12, RepeatCount = 1, Instructions = [RowInstruction 101 1 False 1 []]\<rparr>]\<rparr>,
      \<lparr>PatternSection.ID = 2, Rows =
         [\<lparr>Row.ID = 13, RepeatCount = 1, Instructions = [RowInstruction 102 1 False 1 []]\<rparr>]\<rparr>]"

definition gap_db :: DB where
  "gap_db = \<lparr>work_sessions = [\<lparr>WorkSession.ID = 7, PatternID = 5, Completed = False\<rparr>],
          work_progress = [], patterns = [5 \<mapsto> gap_sections]\<rparr>"

definition gap_started_db :: DB where
  "gap_started_db = gap_db\<lparr>work_progress :=
     [\<lparr>SessionID = 7, SectionID = 1, RowID = 10, RowRepeatIndex = 0, InstructionID = 100,
       StitchIndex = 0, GroupRepeatIndex = 0, StitchesCompletedInRow = 0\<rparr>]\<rparr>"


section \<open>Properties of the flattener\<close>

lemma emitStitches_eq:
  "emitStitches iid cnt grp si out =
     out @ map (\<lambda>k. \<lparr>StitchPos.InstructionID = iid, StitchIndex = k, GroupRepeatIndex = grp\<rparr>)
             [si..cnt - 1]"
proof (induction iid cnt grp si out rule: emitStitches.induct)
  case (1 iid cnt grp si out)
  show ?case
  proof (cases "si < cnt")
    case True
    then have "[si..cnt - 1] = si # [si + 1..cnt - 1]"
      by (simp add: upto_rec1)
    with True "1.IH" show ?thesis
      by (subst emitStitches.simps) simp
  next
    case False
    then show ?thesis
      by (subst emitStitches.simps) simp
  qed
qed

lemma emitChildren_eq:
  "emitChildren cs grp out = out @ concat (map (\<lambda>c. unitsOf c grp) cs)"
  by (induction cs arbitrary: out) (simp_all add: emitStitches_eq unitsOf_def)

lemma emitGroup_eq:
  "emitGroup ri grp out = out @ concat (map (groupRepeatUnits ri) [grp..GroupRepeat ri - 1])"
proof (induction ri grp out rule: emitGroup.induct)
  case (1 ri grp out)
  show ?case
  proof (cases "grp < GroupRepeat ri")
    case True
    then have "[grp..GroupRepeat ri - 1] = grp # [grp + 1..GroupRepeat ri - 1]"
      by (simp add: upto_rec1)
    with True "1.IH" show ?thesis
      by (subst emitGroup.simps) (simp add: emitChildren_eq groupRepeatUnits_def [abs_def])
  next
    case False
    then show ?thesis
      by (subst emitGroup.simps) simp
  qed
qed

lemma flattenLoop_eq:
  "flattenLoop instrs out = out @ flatten_spec instrs"
  by (induction instrs arbitrary: out)
     (simp_all add: flatten_spec_def instructionUnits_def emitGroup_eq emitStitches_eq unitsOf_def)

lemma Flatten_is_spec: "FlattenInstructions instrs = flatten_spec instrs"
  by (simp add: FlattenInstructions_def flattenLoop_eq)

lemma findFlatFrom_found:
  "i < length flat \<Longrightarrow> posMatches (flat ! i) p \<Longrightarrow> (\<forall>j<i. \<not> posMatches (flat ! j) p)
     \<Longrightarrow> findFlatFrom flat p k = k + int i"
proof (induction flat arbitrary: i k)
  case Nil
  then show ?case by simp
next
  case (Cons pos rest)
  show ?case
  proof (cases i)
    case 0
    with Cons.prems show ?thesis by simp
  next
    case (Suc i')
    from Cons.prems Suc have "\<not> posMatches pos p" by auto
    moreover from Cons.prems Suc have "findFlatFrom rest p (k + 1) = (k + 1) + int i'"
      by (intro Cons.IH) auto
    ultimately show ?thesis using Suc by simp
  qed
qed

lemma findFlatFrom_none:
  "(\<forall>pos\<in>set flat. \<not> posMatches pos p) \<Longrightarrow> findFlatFrom flat p k = -1"
  by (induction flat arbitrary: k) simp_all

lemma findFlatFrom_cases:
  "(\<exists>j<length flat. findFlatFrom flat p k = k + int j \<and> posMatches (flat ! j) p) \<or>
   (findFlatFrom flat p k = -1 \<and> (\<forall>pos\<in>set flat. \<not> posMatches pos p))"
proof (induction flat arbitrary: k)
  case Nil
  then show ?case by simp
next
  case (Cons pos rest)
  show ?case
  proof (cases "posMatches pos p")
    case True
    then have "findFlatFrom (pos # rest) p k = k + int 0 \<and> posMatches ((pos # rest) ! 0) p"
      by simp
    then show ?thesis by blast
  next
    case False
    from Cons.IH [of "k + 1"] show ?thesis
    proof
      assume "\<exists>j<length rest. findFlatFrom rest p (k + 1) = k + 1 + int j \<and> posMatches (rest ! j) p"
      then obtain j where j: "j < length rest" "findFlatFrom rest p (k + 1) = k + 1 + int j"
        "posMatches (rest ! j) p" by blast
      with False have "Suc j < length (pos # rest) \<and>
        findFlatFrom (pos # rest) p k = k + int (Suc j) \<and> posMatches ((pos # rest) ! Suc j) p"
        by simp
      then show ?thesis by blast
    next
      assume "findFlatFrom rest p (k + 1) = -1 \<and> (\<forall>pos\<in>set rest. \<not> posMatches pos p)"
      with False show ?thesis by simp
    qed
  qed
qed

lemma posMatches_same:
  "posMatches a p \<Longrightarrow> posMatches b p \<Longrightarrow> a = b"
  by (simp add: posMatches_def StitchPos.equality)

lemma FindFlatIndex_distinct:
  assumes "distinct flat" "i < length flat" "posMatches (flat ! i) p"
  shows "FindFlatIndex flat p = int i"
proof -
  have "\<forall>j<i. \<not> posMatches (flat ! j) p"
  proof (intro allI impI notI)
    fix j assume "j < i" "posMatches (flat ! j) p"
    with assms have "flat ! j = flat ! i" by (auto intro: posMatches_same)
    with assms \<open>j < i\<close> show False by (simp add: nth_eq_iff_index_eq)
  qed
  with assms show ?thesis
    unfolding FindFlatIndex_def by (simp add: findFlatFrom_found)
qed

lemma set_unitsOf:
  "x \<in> set (unitsOf c g) \<Longrightarrow>
     StitchPos.InstructionID x = RowInstruction.ID c \<and> StitchPos.GroupRepeatIndex x = g"
  by (auto simp: unitsOf_def)

lemma distinct_unitsOf: "distinct (unitsOf c g)"
  by (simp add: unitsOf_def distinct_map inj_on_def)

lemma distinct_children_units:
  "distinct (map RowInstruction.ID cs) \<Longrightarrow> distinct (concat (map (\<lambda>c. unitsOf c g) cs))"
proof (induction cs)
  case Nil
  then show ?case by simp
next
  case (Cons c cs)
  have "set (unitsOf c g) \<inter> set (concat (map (\<lambda>c. unitsOf c g) cs)) = {}"
  proof (rule ccontr)
    assume "set (unitsOf c g) \<inter> set (concat (map (\<lambda>c. unitsOf c g) cs)) \<noteq> {}"
    then obtain x c' where "x \<in> set (unitsOf c g)" "c' \<in> set cs" "x \<in> set (unitsOf c' g)"
      by auto
    then have "RowInstruction.ID c = RowInstruction.ID c'" "c' \<in> set cs"
      using set_unitsOf by metis+
    with Cons.prems show False by auto
  qed
  with Cons show ?case by (simp add: distinct_unitsOf)
qed

lemma set_groupRepeatUnits:
  "x \<in> set (groupRepeatUnits ri g) \<Longrightarrow>
     StitchPos.InstructionID x \<in> RowInstruction.ID ` set (Children ri) \<and>
     StitchPos.GroupRepeatIndex x = g"
  by (auto simp: groupRepeatUnits_def dest: set_unitsOf)

lemma distinct_group_units:
  "distinct gs \<Longrightarrow> distinct (map RowInstruction.ID (Children ri)) \<Longrightarrow>
     distinct (concat (map (groupRepeatUnits ri) gs))"
proof (induction gs)
  case Nil
  then show ?case by simp
next
  case (Cons g gs)
  have "set (groupRepeatUnits ri g) \<inter> set (concat (map (groupRepeatUnits ri) gs)) = {}"
  proof (rule ccontr)
    assume "set (groupRepeatUnits ri g) \<inter> set (concat (map (groupRepeatUnits ri) gs)) \<noteq> {}"
    then obtain x g' where "x \<in> set (groupRepeatUnits ri g)" "g' \<in> set gs"
      "x \<in> set (groupRepeatUnits ri g')"
      by auto
    then have "g = g'" "g' \<in> set gs"
      using set_groupRepeatUnits by metis+
    with Cons.prems show False by auto
  qed
  moreover have "distinct (groupRepeatUnits ri g)"
    using Cons.prems by (simp add: groupRepeatUnits_def distinct_children_units)
  ultimately show ?case using Cons by simp
qed

lemma set_instructionUnits:
  "x \<in> set (instructionUnits ri) \<Longrightarrow>
     StitchPos.InstructionID x \<in> set (RowInstruction.ID ri # map RowInstruction.ID (Children ri))"
  by (auto simp: instructionUnits_def dest: set_unitsOf set_groupRepeatUnits split: if_splits)

lemma distinct_instructionUnits:
  "distinct (map RowInstruction.ID (Children ri)) \<Longrightarrow> distinct (instructionUnits ri)"
  by (simp add: instructionUnits_def distinct_unitsOf distinct_group_units)

lemma set_flatten_spec:
  "x \<in> set (flatten_spec instrs) \<Longrightarrow> StitchPos.InstructionID x \<in> set (allInstructionIDs instrs)"
proof -
  assume "x \<in> set (flatten_spec instrs)"
  then obtain ri where ri: "ri \<in> set instrs" "x \<in> set (instructionUnits ri)"
    by (auto simp: flatten_spec_def)
  from ri(2) have "StitchPos.InstructionID x
      \<in> set (RowInstruction.ID ri # map RowInstruction.ID (Children ri))"
    by (rule set_instructionUnits)
  with ri(1) show ?thesis
    unfolding allInstructionIDs_def set_concat set_map by blast
qed

lemma distinct_flatten_spec:
  "distinct (allInstructionIDs instrs) \<Longrightarrow> distinct (flatten_spec instrs)"
proof (induction instrs)
  case Nil
  then show ?case by (simp add: flatten_spec_def)
next
  case (Cons ri rest)
  let ?ids = "RowInstruction.ID ri # map RowInstruction.ID (Children ri)"
  from Cons.prems have d: "distinct ?ids" "distinct (allInstructionIDs rest)"
    "set ?ids \<inter> set (allInstructionIDs rest) = {}"
    by (simp_all add: allInstructionIDs_def)
  have "set (instructionUnits ri) \<inter> set (flatten_spec rest) = {}"
  proof (rule ccontr)
    assume "set (instructionUnits ri) \<inter> set (flatten_spec rest) \<noteq> {}"
    then obtain x where "x \<in> set (instructionUnits ri)" "x \<in> set (flatten_spec rest)"
      by auto
    then have "StitchPos.InstructionID x \<in> set ?ids"
      "StitchPos.InstructionID x \<in> set (allInstructionIDs rest)"
      using set_instructionUnits set_flatten_spec by blast+
    with d(3) show False by blast
  qed
  moreover from d(1) have "distinct (instructionUnits ri)"
    by (simp add: distinct_instructionUnits)
  moreover from d(2) have "distinct (flatten_spec rest)" by (rule Cons.IH)
  ultimately show ?case by (simp add: flatten_spec_def)
qed


section \<open>Properties of the stored state and of the scans\<close>

lemma TouchSessionActivity_id [simp]: "TouchSessionActivity db k = db"
  by (simp add: TouchSessionActivity_def)

lemma GetProgress_SessionID: "GetProgress db sid = Inr p \<Longrightarrow> SessionID p = sid"
  by (auto simp: GetProgress_def find_Some_iff split: option.splits)

lemma find_map_overwrite:
  "find (\<lambda>r. SessionID r = k) rows = Some p \<Longrightarrow> SessionID (f p) = k \<Longrightarrow>
   find (\<lambda>r. SessionID r = k) (map (\<lambda>r. if SessionID r = k then f r else r) rows) = Some (f p)"
  by (induction rows) (auto split: if_splits)

lemma GetProgress_saveProgress:
  assumes "GetProgress db sid = Inr p" "SessionID q = sid"
  shows "GetProgress (saveProgress db q) sid = Inr q"
proof -
  let ?f = "\<lambda>r. r\<lparr>SectionID := SectionID q, RowID := RowID q,
                            RowRepeatIndex := RowRepeatIndex q,
                            WorkProgress.InstructionID := WorkProgress.InstructionID q,
                            WorkProgress.StitchIndex := WorkProgress.StitchIndex q,
                            WorkProgress.GroupRepeatIndex := WorkProgress.GroupRepeatIndex q,
                            StitchesCompletedInRow := StitchesCompletedInRow q\<rparr>"
  from assms(1) have f: "find (\<lambda>r. SessionID r = sid) (work_progress db) = Some p"
    by (auto simp: GetProgress_def split: option.splits)
  then have "SessionID p = sid" by (auto simp: find_Some_iff)
  with assms(2) have "?f p = q" by (intro WorkProgress.equality) simp_all
  moreover have "find (\<lambda>r. SessionID r = sid)
      (map (\<lambda>r. if SessionID r = sid then ?f r else r) (work_progress db)) = Some (?f p)"
    using f by (rule find_map_overwrite) (simp add: \<open>SessionID p = sid\<close>)
  ultimately show ?thesis
    using assms(2) by (simp add: GetProgress_def saveProgress_def)
qed

lemma saveProgress_frame [simp]:
  "work_sessions (saveProgress db q) = work_sessions db"
  "patterns (saveProgress db q) = patterns db"
  "FindSessionByID (saveProgress db q) sid = FindSessionByID db sid"
  "LoadPatternFull (saveProgress db q) pid = LoadPatternFull db pid"
  by (simp_all add: saveProgress_def FindSessionByID_def LoadPatternFull_def)

lemma MarkSessionCompleted_frame [simp]:
  "work_progress (MarkSessionCompleted db sid) = work_progress db"
  "patterns (MarkSessionCompleted db sid) = patterns db"
  "GetProgress (MarkSessionCompleted db sid) k = GetProgress db k"
  "LoadPatternFull (MarkSessionCompleted db sid) pid = LoadPatternFull db pid"
  by (simp_all add: MarkSessionCompleted_def GetProgress_def LoadPatternFull_def)

lemma clearCompleted_frame [simp]:
  "work_progress (clearCompleted db sid) = work_progress db"
  "patterns (clearCompleted db sid) = patterns db"
  "GetProgress (clearCompleted db sid) k = GetProgress db k"
  "LoadPatternFull (clearCompleted db sid) pid = LoadPatternFull db pid"
  by (simp_all add: clearCompleted_def GetProgress_def LoadPatternFull_def)

lemma find_map_session:
  "find (\<lambda>s. WorkSession.ID s = k) rows = Some s \<Longrightarrow>
   find (\<lambda>s. WorkSession.ID s = k)
     (map (\<lambda>s. if WorkSession.ID s = k then s\<lparr>Completed := b\<rparr> else s) rows) =
   Some (s\<lparr>Completed := b\<rparr>)"
  by (induction rows) (auto split: if_splits)

lemma FindSessionByID_Mark:
  "FindSessionByID db sid = Inr s \<Longrightarrow>
   FindSessionByID (MarkSessionCompleted db sid) sid = Inr (s\<lparr>Completed := True\<rparr>)"
  by (auto simp: FindSessionByID_def MarkSessionCompleted_def find_map_session split: option.splits)


lemma sectionExhausted_True:
  "sectionExhausted db sid sections sIdx q = (Inr True, db') \<Longrightarrow> db' = MarkSessionCompleted db sid"
  by (auto simp: sectionExhausted_def Let_def split: option.splits if_splits)

lemma find_append_case:
  "find P (xs @ ys) = (case find P xs of Some x \<Rightarrow> Some x | None \<Rightarrow> find P ys)"
  by (induction xs) auto

lemma find_map_Pair:
  "find (\<lambda>(s, r). P r) (map (Pair s) rows) = map_option (Pair s) (find P rows)"
  by (induction rows) auto

lemma firstNonEmptyRow_Nil [simp]: "firstNonEmptyRow [] = None"
  by (simp add: firstNonEmptyRow_def rowPairs_def)

lemma firstNonEmptyRow_Cons:
  "firstNonEmptyRow (s # ss) =
     (case find nonEmptyRow (Rows s) of Some r \<Rightarrow> Some (s, r) | None \<Rightarrow> firstNonEmptyRow ss)"
  by (simp add: firstNonEmptyRow_def rowPairs_def find_append_case find_map_Pair
      split: option.splits)

lemma firstNonEmptyRow_None_iff:
  "firstNonEmptyRow sections = None \<longleftrightarrow>
     (\<forall>s\<in>set sections. \<forall>r\<in>set (Rows s). FlattenInstructions (Instructions r) = [])"
  by (auto simp: firstNonEmptyRow_def rowPairs_def find_None_iff nonEmptyRow_def)

lemma scanRowsForward_find: "scanRowsForward rows = find nonEmptyRow rows"
  by (induction rows) (simp_all add: nonEmptyRow_def)

lemma scanSectionsForward_append:
  "scanSectionsForward (pre @ post) (int (length pre)) = firstNonEmptyRow post"
proof (induction post arbitrary: pre)
  case Nil
  show ?case by (subst scanSectionsForward.simps) simp
next
  case (Cons s post)
  have "scanSectionsForward ((pre @ [s]) @ post) (int (length (pre @ [s]))) = firstNonEmptyRow post"
    by (rule Cons.IH)
  then have "scanSectionsForward (pre @ s # post) (int (length pre) + 1) = firstNonEmptyRow post"
    by (simp add: add.commute)
  then show ?case
    by (subst scanSectionsForward.simps)
       (simp add: firstNonEmptyRow_Cons scanRowsForward_find split: option.splits)
qed

lemma scanSectionsForward_drop:
  assumes "0 \<le> si"
  shows "scanSectionsForward sections si = firstNonEmptyRow (drop (nat si) sections)"
proof (cases "si < int (length sections)")
  case True
  with assms have "scanSectionsForward (take (nat si) sections @ drop (nat si) sections)
      (int (length (take (nat si) sections))) = firstNonEmptyRow (drop (nat si) sections)"
    by (intro scanSectionsForward_append)
  moreover from True assms have "int (length (take (nat si) sections)) = si" by simp
  ultimately show ?thesis by simp
next
  case False
  then show ?thesis by (subst scanSectionsForward.simps) simp
qed

lemma initRows_find:
  "initRows db sid s rows =
     (case find nonEmptyRow rows of
        None \<Rightarrow> None
      | Some r \<Rightarrow> Some (insertProgress db (firstUnitCursor sid s r)))"
  by (induction rows) (simp_all add: nonEmptyRow_def firstUnitCursor_def Let_def)

lemma initSections_first:
  "initSections db sid sections =
     (case firstNonEmptyRow sections of
        None \<Rightarrow> None
      | Some (s, r) \<Rightarrow> Some (insertProgress db (firstUnitCursor sid s r)))"
  by (induction sections) (simp_all add: firstNonEmptyRow_Cons initRows_find split: option.splits)

lemma findSectionFrom_Some:
  "findSectionFrom secs ident k = Some (s, i) \<Longrightarrow>
     k \<le> i \<and> i < k + int (length secs) \<and> secs ! nat (i - k) = s \<and> PatternSection.ID s = ident"
proof (induction secs arbitrary: k)
  case Nil
  then show ?case by simp
next
  case (Cons a secs)
  show ?case
  proof (cases "PatternSection.ID a = ident")
    case True
    with Cons.prems show ?thesis by auto
  next
    case False
    with Cons.prems have "findSectionFrom secs ident (k + 1) = Some (s, i)" by simp
    from Cons.IH [OF this] have "k + 1 \<le> i" "i < k + 1 + int (length secs)"
      "secs ! nat (i - (k + 1)) = s" "PatternSection.ID s = ident" by simp_all
    moreover from \<open>k + 1 \<le> i\<close> have "nat (i - k) = Suc (nat (i - (k + 1)))" by simp
    ultimately show ?thesis by simp
  qed
qed

lemma findSectionByID_Some:
  "findSectionByID secs ident = Some (s, i) \<Longrightarrow>
     0 \<le> i \<and> i < int (length secs) \<and> secs ! nat i = s \<and> PatternSection.ID s = ident"
  unfolding findSectionByID_def by (drule findSectionFrom_Some) simp

lemma findRowFrom_Some:
  "findRowFrom rows ident k = Some (r, i) \<Longrightarrow>
     k \<le> i \<and> i < k + int (length rows) \<and> rows ! nat (i - k) = r \<and> Row.ID r = ident"
proof (induction rows arbitrary: k)
  case Nil
  then show ?case by simp
next
  case (Cons a rows)
  show ?case
  proof (cases "Row.ID a = ident")
    case True
    with Cons.prems show ?thesis by auto
  next
    case False
    with Cons.prems have "findRowFrom rows ident (k + 1) = Some (r, i)" by simp
    from Cons.IH [OF this] have "k + 1 \<le> i" "i < k + 1 + int (length rows)"
      "rows ! nat (i - (k + 1)) = r" "Row.ID r = ident" by simp_all
    moreover from \<open>k + 1 \<le> i\<close> have "nat (i - k) = Suc (nat (i - (k + 1)))" by simp
    ultimately show ?thesis by simp
  qed
qed

lemma findRowByID_Some:
  "findRowByID rows ident = Some (r, i) \<Longrightarrow>
     0 \<le> i \<and> i < int (length rows) \<and> rows ! nat i = r \<and> Row.ID r = ident"
  unfolding findRowByID_def by (drule findRowFrom_Some) simp

lemma sectionExhausted_first:
  assumes "0 \<le> sIdx"
  shows "sectionExhausted db sid sections sIdx (q\<lparr>StitchesCompletedInRow := 0, RowRepeatIndex := 0\<rparr>) =
     (case firstNonEmptyRow (drop (nat (sIdx + 1)) sections) of
        Some (s', r') \<Rightarrow> (Inr False, saveProgress db (firstUnitCursor (SessionID q) s' r'))
      | None \<Rightarrow> (Inr True, MarkSessionCompleted db sid))"
proof (cases "sIdx + 1 < int (length sections)")
  case True
  from assms have "scanSectionsForward sections (sIdx + 1) =
      firstNonEmptyRow (drop (nat (sIdx + 1)) sections)"
    by (intro scanSectionsForward_drop) simp
  moreover have "\<And>s' r'. firstNonEmptyRow (drop (nat (sIdx + 1)) sections) = Some (s', r')
      \<Longrightarrow> FlattenInstructions (Instructions r') \<noteq> []"
    by (auto simp: firstNonEmptyRow_def find_Some_iff nonEmptyRow_def)
  ultimately show ?thesis using True
    by (auto simp: sectionExhausted_def Let_def setToFirstStitch_def firstUnitCursor_def
        split: option.splits intro!: arg_cong [where f = "saveProgress db"] WorkProgress.equality)
next
  case False
  then show ?thesis by (simp add: sectionExhausted_def)
qed

lemma advance_within_row:
  assumes "loaded db sid session progress sections section sIdx row rIdx" "\<not> Completed session"
    and "FindFlatIndex (FlattenInstructions (Instructions row)) progress + 1
           < int (length (FlattenInstructions (Instructions row)))"
  shows "AdvanceProgress db sid =
     (Inr False, saveProgress db (progress\<lparr>
        WorkProgress.InstructionID := StitchPos.InstructionID (FlattenInstructions (Instructions row) !
           nat (FindFlatIndex (FlattenInstructions (Instructions row)) progress + 1)),
        WorkProgress.StitchIndex := StitchPos.StitchIndex (FlattenInstructions (Instructions row) !
           nat (FindFlatIndex (FlattenInstructions (Instructions row)) progress + 1)),
        WorkProgress.GroupRepeatIndex := StitchPos.GroupRepeatIndex (FlattenInstructions (Instructions row) !
           nat (FindFlatIndex (FlattenInstructions (Instructions row)) progress + 1)),
        StitchesCompletedInRow := FindFlatIndex (FlattenInstructions (Instructions row)) progress + 1\<rparr>))"
  using assms unfolding loaded_def AdvanceProgress_def by (simp add: Let_def)

lemma advance_next_repeat:
  assumes "loaded db sid session progress sections section sIdx row rIdx" "\<not> Completed session"
    and "\<not> FindFlatIndex (FlattenInstructions (Instructions row)) progress + 1
           < int (length (FlattenInstructions (Instructions row)))"
    and "RowRepeatIndex progress + 1 < RepeatCount row"
  shows "AdvanceProgress db sid =
     (Inr False, saveProgress db
        (setToFirstStitch (progress\<lparr>StitchesCompletedInRow := 0,
            RowRepeatIndex := RowRepeatIndex progress + 1\<rparr>)
          (FlattenInstructions (Instructions row))))"
  using assms unfolding loaded_def AdvanceProgress_def by (simp add: Let_def)

lemma advance_next_row:
  assumes "loaded db sid session progress sections section sIdx row rIdx" "\<not> Completed session"
    and "\<not> FindFlatIndex (FlattenInstructions (Instructions row)) progress + 1
           < int (length (FlattenInstructions (Instructions row)))"
    and "\<not> RowRepeatIndex progress + 1 < RepeatCount row"
    and "rIdx + 1 < int (length (Rows section))"
    and "FlattenInstructions (Instructions (Rows section ! nat (rIdx + 1))) \<noteq> []"
  shows "AdvanceProgress db sid =
     (Inr False, saveProgress db
        (firstUnitCursor (SessionID progress) section (Rows section ! nat (rIdx + 1))))"
proof -
  from assms(1) have "PatternSection.ID section = SectionID progress"
    unfolding loaded_def by (auto dest: findSectionByID_Some)
  then have "setToFirstStitch
      (progress\<lparr>StitchesCompletedInRow := 0, RowRepeatIndex := 0,
         RowID := Row.ID (Rows section ! nat (rIdx + 1))\<rparr>)
      (FlattenInstructions (Instructions (Rows section ! nat (rIdx + 1)))) =
    firstUnitCursor (SessionID progress) section (Rows section ! nat (rIdx + 1))"
    using assms(6)
    by (intro WorkProgress.equality) (simp_all add: setToFirstStitch_def firstUnitCursor_def)
  with assms show ?thesis
    unfolding loaded_def AdvanceProgress_def by (simp add: Let_def)
qed

lemma advance_section_exhausted:
  assumes "loaded db sid session progress sections section sIdx row rIdx" "\<not> Completed session"
    and "\<not> FindFlatIndex (FlattenInstructions (Instructions row)) progress + 1
           < int (length (FlattenInstructions (Instructions row)))"
    and "\<not> RowRepeatIndex progress + 1 < RepeatCount row"
    and "\<not> (rIdx + 1 < int (length (Rows section)) \<and>
            FlattenInstructions (Instructions (Rows section ! nat (rIdx + 1))) \<noteq> [])"
  shows "AdvanceProgress db sid =
     (case firstNonEmptyRow (drop (nat (sIdx + 1)) sections) of
        Some (s', r') \<Rightarrow> (Inr False, saveProgress db (firstUnitCursor (SessionID progress) s' r'))
      | None \<Rightarrow> (Inr True, MarkSessionCompleted db sid))"
proof -
  from assms(1) have "0 \<le> sIdx"
    unfolding loaded_def by (auto dest: findSectionByID_Some)
  note se = sectionExhausted_first [OF this, of db sid sections progress]
  from assms show ?thesis
    unfolding loaded_def AdvanceProgress_def by (auto simp: Let_def se)
qed

lemma AdvanceProgress_True_cases:
  assumes "AdvanceProgress db sid = (Inr True, db')"
  shows "(\<exists>s. FindSessionByID db sid = Inr s \<and> Completed s \<and> db' = db) \<or>
         (\<exists>s. FindSessionByID db sid = Inr s \<and> \<not> Completed s \<and> db' = MarkSessionCompleted db sid)"
  using assms unfolding AdvanceProgress_def
  by (auto simp: Let_def split: sum.splits option.splits if_splits prod.splits
      dest: sectionExhausted_True)

lemma scenario_rowA_flat:
  "FlattenInstructions (Instructions scenario_rowA) =
     [\<lparr>StitchPos.InstructionID = 100, StitchIndex = 0, GroupRepeatIndex = 0\<rparr>,
      \<lparr>StitchPos.InstructionID = 100, StitchIndex = 1, GroupRepeatIndex = 0\<rparr>,
      \<lparr>StitchPos.InstructionID = 100, StitchIndex = 2, GroupRepeatIndex = 0\<rparr>]"
  by code_simp

section \<open>Lookups, backward scans and the branches of UndoProgress\<close>

lemma findSectionFrom_at:
  "PatternSection.ID s \<notin> PatternSection.ID ` set pre \<Longrightarrow>
     findSectionFrom (pre @ s # post) (PatternSection.ID s) k = Some (s, k + int (length pre))"
  by (induction pre arbitrary: k) auto

lemma findRowFrom_at:
  "Row.ID r \<notin> Row.ID ` set pre \<Longrightarrow>
     findRowFrom (pre @ r # post) (Row.ID r) k = Some (r, k + int (length pre))"
  by (induction pre arbitrary: k) auto

lemma findSectionByID_at:
  "distinct (map PatternSection.ID (pre @ s # post)) \<Longrightarrow>
     findSectionByID (pre @ s # post) (PatternSection.ID s) = Some (s, int (length pre))"
  unfolding findSectionByID_def by (subst findSectionFrom_at) auto

lemma findRowByID_at:
  "distinct (map Row.ID (pre @ r # post)) \<Longrightarrow>
     findRowByID (pre @ r # post) (Row.ID r) = Some (r, int (length pre))"
  unfolding findRowByID_def by (subst findRowFrom_at) auto

lemma findSectionByID_member:
  assumes "distinct (map PatternSection.ID secs)" "s \<in> set secs"
  shows "\<exists>i. findSectionByID secs (PatternSection.ID s) = Some (s, i)"
proof -
  from assms(2) obtain pre post where "secs = pre @ s # post" by (auto dest: split_list)
  with assms(1) show ?thesis using findSectionByID_at by blast
qed

lemma findRowByID_member:
  assumes "distinct (map Row.ID rows)" "r \<in> set rows"
  shows "\<exists>i. findRowByID rows (Row.ID r) = Some (r, i)"
proof -
  from assms(2) obtain pre post where "rows = pre @ r # post" by (auto dest: split_list)
  with assms(1) show ?thesis using findRowByID_at by blast
qed

lemma firstNonEmptyRow_member:
  "firstNonEmptyRow secs = Some (s, r) \<Longrightarrow> s \<in> set secs \<and> r \<in> set (Rows s) \<and> nonEmptyRow r"
  unfolding firstNonEmptyRow_def rowPairs_def
  by (auto dest!: find_Some_iff [THEN iffD1] simp: in_set_conv_nth[symmetric] dest: nth_mem)

lemma lastNonEmptyRow_member:
  "lastNonEmptyRow secs = Some (s, r) \<Longrightarrow> s \<in> set secs \<and> r \<in> set (Rows s) \<and> nonEmptyRow r"
  unfolding lastNonEmptyRow_def rowPairs_def
  by (auto dest!: find_Some_iff [THEN iffD1] dest: nth_mem)

lemma lastNonEmptyRow_Nil [simp]: "lastNonEmptyRow [] = None"
  by (simp add: lastNonEmptyRow_def rowPairs_def)

lemma lastNonEmptyRow_snoc:
  "lastNonEmptyRow (ss @ [s]) =
     (case find nonEmptyRow (rev (Rows s)) of Some r \<Rightarrow> Some (s, r) | None \<Rightarrow> lastNonEmptyRow ss)"
  by (simp add: lastNonEmptyRow_def rowPairs_def find_append_case find_map_Pair rev_map
      split: option.splits)

lemma scanRowsBackward_append:
  "scanRowsBackward (pre @ post) (int (length pre) - 1) = find nonEmptyRow (rev pre)"
proof (induction pre arbitrary: post rule: rev_induct)
  case Nil
  show ?case by (subst scanRowsBackward.simps) simp
next
  case (snoc r pre)
  have "scanRowsBackward (pre @ r # post) (int (length pre) - 1) = find nonEmptyRow (rev pre)"
    by (rule snoc.IH)
  then show ?case
    by (subst scanRowsBackward.simps) (simp add: nonEmptyRow_def Let_def)
qed

lemma scanRowsBackward_all:
  "scanRowsBackward rows (int (length rows) - 1) = find nonEmptyRow (rev rows)"
  using scanRowsBackward_append [of rows "[]"] by simp

lemma scanSectionsBackward_append:
  "scanSectionsBackward (pre @ post) (int (length pre) - 1) = lastNonEmptyRow pre"
proof (induction pre arbitrary: post rule: rev_induct)
  case Nil
  show ?case by (subst scanSectionsBackward.simps) simp
next
  case (snoc s pre)
  have "scanSectionsBackward (pre @ s # post) (int (length pre) - 1) = lastNonEmptyRow pre"
    by (rule snoc.IH)
  then show ?case
    by (subst scanSectionsBackward.simps)
       (simp add: lastNonEmptyRow_snoc scanRowsBackward_all Let_def split: option.splits)
qed

lemma scanSectionsBackward_take:
  assumes "0 \<le> sIdx" "sIdx \<le> int (length sections)"
  shows "scanSectionsBackward sections (sIdx - 1) = lastNonEmptyRow (take (nat sIdx) sections)"
proof -
  from assms have "int (length (take (nat sIdx) sections)) = sIdx" by simp
  with scanSectionsBackward_append [of "take (nat sIdx) sections" "drop (nat sIdx) sections"]
  show ?thesis by simp
qed

lemma undoCommit_cursor:
  assumes "GetProgress db sid = Inr p" "SessionID q = sid"
  shows "\<exists>db'. undoCommit db session sid q = (Inr (), db') \<and> GetProgress db' sid = Inr q \<and>
           patterns db' = patterns db"
  using GetProgress_saveProgress [OF assms]
  by (simp add: undoCommit_def Let_def)

lemma atFirstRowOfSection_last:
  assumes "0 \<le> sIdx" "sIdx \<le> int (length sections)"
  shows "atFirstRowOfSection db session sid sections sIdx q =
     (case lastNonEmptyRow (take (nat sIdx) sections) of
        Some (s', r') \<Rightarrow> undoCommit db session sid (lastUnitCursor (SessionID q) s' r')
      | None \<Rightarrow> (Inr (), db))"
proof (cases "sIdx > 0")
  case True
  have "\<And>s' r'. lastNonEmptyRow (take (nat sIdx) sections) = Some (s', r')
      \<Longrightarrow> FlattenInstructions (Instructions r') \<noteq> []"
    by (auto dest: lastNonEmptyRow_member simp: nonEmptyRow_def)
  then show ?thesis using True scanSectionsBackward_take [OF assms]
    by (auto simp: atFirstRowOfSection_def Let_def setToLastStitch_def lastUnitCursor_def
        split: option.splits
        intro!: arg_cong [where f = "undoCommit db session sid"] WorkProgress.equality)
next
  case False
  with assms have "sIdx = 0" by simp
  then show ?thesis by (simp add: atFirstRowOfSection_def)
qed

lemma undo_within_row:
  assumes "loaded db sid session progress sections section sIdx row rIdx"
    and "FindFlatIndex (FlattenInstructions (Instructions row)) progress > 0"
  shows "UndoProgress db sid =
     undoCommit db session sid (progress\<lparr>
        WorkProgress.InstructionID := StitchPos.InstructionID (FlattenInstructions (Instructions row) !
           nat (FindFlatIndex (FlattenInstructions (Instructions row)) progress - 1)),
        WorkProgress.StitchIndex := StitchPos.StitchIndex (FlattenInstructions (Instructions row) !
           nat (FindFlatIndex (FlattenInstructions (Instructions row)) progress - 1)),
        WorkProgress.GroupRepeatIndex := StitchPos.GroupRepeatIndex (FlattenInstructions (Instructions row) !
           nat (FindFlatIndex (FlattenInstructions (Instructions row)) progress - 1)),
        StitchesCompletedInRow := FindFlatIndex (FlattenInstructions (Instructions row)) progress - 1\<rparr>)"
  using assms unfolding loaded_def UndoProgress_def by (simp add: Let_def)

lemma undo_previous_repeat:
  assumes "loaded db sid session progress sections section sIdx row rIdx"
    and "\<not> FindFlatIndex (FlattenInstructions (Instructions row)) progress > 0"
    and "RowRepeatIndex progress > 0"
  shows "UndoProgress db sid =
     undoCommit db session sid
        (setToLastStitch (progress\<lparr>RowRepeatIndex := RowRepeatIndex progress - 1\<rparr>)
          (FlattenInstructions (Instructions row)))"
  using assms unfolding loaded_def UndoProgress_def by (simp add: Let_def)

lemma undo_previous_row:
  assumes "loaded db sid session progress sections section sIdx row rIdx"
    and "\<not> FindFlatIndex (FlattenInstructions (Instructions row)) progress > 0"
    and "\<not> RowRepeatIndex progress > 0"
    and "rIdx > 0"
    and "FlattenInstructions (Instructions (Rows section ! nat (rIdx - 1))) \<noteq> []"
  shows "UndoProgress db sid =
     undoCommit db session sid
        (lastUnitCursor (SessionID progress) section (Rows section ! nat (rIdx - 1)))"
proof -
  from assms(1) have "PatternSection.ID section = SectionID progress"
    unfolding loaded_def by (auto dest: findSectionByID_Some)
  then have "setToLastStitch
      (progress\<lparr>RowID := Row.ID (Rows section ! nat (rIdx - 1)),
         RowRepeatIndex := RepeatCount (Rows section ! nat (rIdx - 1)) - 1\<rparr>)
      (FlattenInstructions (Instructions (Rows section ! nat (rIdx - 1)))) =
    lastUnitCursor (SessionID progress) section (Rows section ! nat (rIdx - 1))"
    using assms(5)
    by (intro WorkProgress.equality) (simp_all add: setToLastStitch_def lastUnitCursor_def Let_def)
  with assms show ?thesis
    unfolding loaded_def UndoProgress_def by (simp add: Let_def)
qed

lemma undo_section_start:
  assumes "loaded db sid session progress sections section sIdx row rIdx"
    and "\<not> FindFlatIndex (FlattenInstructions (Instructions row)) progress > 0"
    and "\<not> RowRepeatIndex progress > 0"
    and "\<not> (rIdx > 0 \<and> FlattenInstructions (Instructions (Rows section ! nat (rIdx - 1))) \<noteq> [])"
  shows "UndoProgress db sid =
     (case lastNonEmptyRow (take (nat sIdx) sections) of
        Some (s', r') \<Rightarrow> undoCommit db session sid (lastUnitCursor (SessionID progress) s' r')
      | None \<Rightarrow> (Inr (), db))"
proof -
  from assms(1) have "0 \<le> sIdx" "sIdx \<le> int (length sections)"
    unfolding loaded_def by (auto dest: findSectionByID_Some)
  note fr = atFirstRowOfSection_last [OF this, of db session sid progress]
  from assms show ?thesis
    unfolding loaded_def UndoProgress_def by (auto simp: Let_def fr)
qed

lemma cursorInvariant_same_row:
  assumes "findSectionByID sections (SectionID p) = Some (section, sIdx)"
    and "findRowByID (Rows section) (RowID p) = Some (row, rIdx)"
    and "SectionID q = SectionID p" "RowID q = RowID p"
    and "0 \<le> StitchesCompletedInRow q"
    and "StitchesCompletedInRow q < int (length (FlattenInstructions (Instructions row)))"
    and "posMatches (FlattenInstructions (Instructions row) ! nat (StitchesCompletedInRow q)) q"
  shows "cursorInvariant sections q"
  using assms by (simp add: cursorInvariant_def)

lemma cursorInvariant_firstUnit:
  assumes "wellFormedIDs sections" "s \<in> set sections" "r \<in> set (Rows s)" "nonEmptyRow r"
  shows "cursorInvariant sections (firstUnitCursor sid s r)"
proof -
  from assms obtain i where i: "findSectionByID sections (PatternSection.ID s) = Some (s, i)"
    unfolding wellFormedIDs_def using findSectionByID_member by blast
  from assms obtain j where j: "findRowByID (Rows s) (Row.ID r) = Some (r, j)"
    unfolding wellFormedIDs_def using findRowByID_member by blast
  from assms(4) i j show ?thesis
    by (simp add: cursorInvariant_def firstUnitCursor_def nonEmptyRow_def posMatches_def)
qed

lemma cursorInvariant_lastUnit:
  assumes "wellFormedIDs sections" "s \<in> set sections" "r \<in> set (Rows s)" "nonEmptyRow r"
  shows "cursorInvariant sections (lastUnitCursor sid s r)"
proof -
  from assms obtain i where i: "findSectionByID sections (PatternSection.ID s) = Some (s, i)"
    unfolding wellFormedIDs_def using findSectionByID_member by blast
  from assms obtain j where j: "findRowByID (Rows s) (Row.ID r) = Some (r, j)"
    unfolding wellFormedIDs_def using findRowByID_member by blast
  from assms(4) have "length (FlattenInstructions (Instructions r)) > 0"
    by (simp add: nonEmptyRow_def)
  then have "nat (int (length (FlattenInstructions (Instructions r))) - 1) =
      length (FlattenInstructions (Instructions r)) - 1" by simp
  with assms(4) i j show ?thesis
    by (simp add: cursorInvariant_def lastUnitCursor_def nonEmptyRow_def posMatches_def Let_def)
qed

lemma FindFlatIndex_cases:
  "(\<exists>j<length flat. FindFlatIndex flat p = int j \<and> posMatches (flat ! j) p) \<or>
   (FindFlatIndex flat p = -1 \<and> (\<forall>pos\<in>set flat. \<not> posMatches pos p))"
  using findFlatFrom_cases [of flat p 0] by (simp add: FindFlatIndex_def)

lemma FindFlatIndex_found:
  assumes "k < length flat" "posMatches (flat ! k) p"
  shows "\<exists>j<length flat. FindFlatIndex flat p = int j \<and> posMatches (flat ! j) p"
  using FindFlatIndex_cases [of flat p] assms by (auto dest: nth_mem)

lemma advance_keeps_invariant:
  assumes wf: "wellFormedIDs sections"
    and s: "FindSessionByID db sid = Inr session"
    and t: "LoadPatternFull db (PatternID session) = Inr sections"
    and g: "GetProgress db sid = Inr p"
    and inv: "cursorInvariant sections p"
    and a: "AdvanceProgress db sid = (Inr completed, db')"
  shows "\<exists>p'. GetProgress db' sid = Inr p' \<and> cursorInvariant sections p'"
proof (cases "Completed session")
  case True
  with s a have "db' = db" by (simp add: AdvanceProgress_def)
  with g inv show ?thesis by blast
next
  case active: False
  let ?scir = "StitchesCompletedInRow p"
  from inv obtain sec0 sIdx row rIdx where
    fs: "findSectionByID sections (SectionID p) = Some (sec0, sIdx)" and
    fr: "findRowByID (Rows sec0) (RowID p) = Some (row, rIdx)" and
    r0: "0 \<le> ?scir" and
    r1: "?scir < int (length (FlattenInstructions (Instructions row)))" and
    pm: "posMatches (FlattenInstructions (Instructions row) ! nat ?scir) p"
    by (auto simp: cursorInvariant_def Let_def split: option.splits)
  let ?flat = "FlattenInstructions (Instructions row)"
  let ?cur = "FindFlatIndex ?flat p"
  have l: "loaded db sid session p sections sec0 sIdx row rIdx"
    using s t g fs fr by (simp add: loaded_def)
  have sidp: "SessionID p = sid" using g by (rule GetProgress_SessionID)
  from r0 r1 have "nat ?scir < length ?flat" by simp
  from FindFlatIndex_found [OF this pm] obtain j where
    j: "j < length ?flat" "?cur = int j" by blast
  from fs have sec: "sec0 \<in> set sections" "PatternSection.ID sec0 = SectionID p"
    by (auto dest!: findSectionByID_Some)
  have saved: "\<And>q. SessionID q = sid \<Longrightarrow> cursorInvariant sections q \<Longrightarrow>
      db' = saveProgress db q \<Longrightarrow> ?thesis"
    using GetProgress_saveProgress [OF g] by blast
  show ?thesis
  proof (cases "?cur + 1 < int (length ?flat)")
    case True
    let ?q = "p\<lparr>WorkProgress.InstructionID := StitchPos.InstructionID (?flat ! nat (?cur + 1)),
        WorkProgress.StitchIndex := StitchPos.StitchIndex (?flat ! nat (?cur + 1)),
        WorkProgress.GroupRepeatIndex := StitchPos.GroupRepeatIndex (?flat ! nat (?cur + 1)),
        StitchesCompletedInRow := ?cur + 1\<rparr>"
    from advance_within_row [OF l active True] a have "db' = saveProgress db ?q" by simp
    moreover have "cursorInvariant sections ?q"
      using True j by (intro cursorInvariant_same_row [OF fs fr]) (simp_all add: posMatches_def)
    ultimately show ?thesis using sidp by (intro saved [of ?q]) simp_all
  next
    case nA: False
    from j have ne: "?flat \<noteq> []" by auto
    show ?thesis
    proof (cases "RowRepeatIndex p + 1 < RepeatCount row")
      case True
      let ?q = "setToFirstStitch (p\<lparr>StitchesCompletedInRow := 0,
            RowRepeatIndex := RowRepeatIndex p + 1\<rparr>) ?flat"
      from advance_next_repeat [OF l active nA True] a have "db' = saveProgress db ?q" by simp
      moreover have "cursorInvariant sections ?q"
        using ne by (intro cursorInvariant_same_row [OF fs fr])
          (simp_all add: posMatches_def setToFirstStitch_def)
      ultimately show ?thesis using sidp
        by (intro saved [of ?q]) (simp_all add: setToFirstStitch_def)
    next
      case nB: False
      show ?thesis
      proof (cases "rIdx + 1 < int (length (Rows sec0)) \<and>
            FlattenInstructions (Instructions (Rows sec0 ! nat (rIdx + 1))) \<noteq> []")
        case True
        let ?r = "Rows sec0 ! nat (rIdx + 1)"
        let ?q = "firstUnitCursor (SessionID p) sec0 ?r"
        from True advance_next_row [OF l active nA nB] a have "db' = saveProgress db ?q" by simp
        moreover from fr True have "?r \<in> set (Rows sec0)"
          by (auto dest!: findRowByID_Some intro!: nth_mem)
        with True wf sec have "cursorInvariant sections ?q"
          by (intro cursorInvariant_firstUnit) (simp_all add: nonEmptyRow_def)
        ultimately show ?thesis using sidp
          by (intro saved [of ?q]) (simp_all add: firstUnitCursor_def)
      next
        case False
        note x = advance_section_exhausted [OF l active nA nB False]
        show ?thesis
        proof (cases "firstNonEmptyRow (drop (nat (sIdx + 1)) sections)")
          case None
          with x a have "db' = MarkSessionCompleted db sid" by simp
          with g inv show ?thesis by auto
        next
          case (Some sr)
          obtain s' r' where sr: "sr = (s', r')" by (cases sr)
          let ?q = "firstUnitCursor (SessionID p) s' r'"
          from Some sr x a have "db' = saveProgress db ?q" by simp
          moreover from Some sr have "s' \<in> set sections" "r' \<in> set (Rows s')" "nonEmptyRow r'"
            by (auto dest!: firstNonEmptyRow_member dest: in_set_dropD)
          with wf have "cursorInvariant sections ?q" by (intro cursorInvariant_firstUnit)
          ultimately show ?thesis using sidp
            by (intro saved [of ?q]) (simp_all add: firstUnitCursor_def)
        qed
      qed
    qed
  qed
qed

lemma undo_keeps_invariant:
  assumes wf: "wellFormedIDs sections"
    and s: "FindSessionByID db sid = Inr session"
    and t: "LoadPatternFull db (PatternID session) = Inr sections"
    and g: "GetProgress db sid = Inr p"
    and inv: "cursorInvariant sections p"
    and a: "UndoProgress db sid = (Inr (), db')"
  shows "\<exists>p'. GetProgress db' sid = Inr p' \<and> cursorInvariant sections p'"
proof -
  let ?scir = "StitchesCompletedInRow p"
  from inv obtain sec0 sIdx row rIdx where
    fs: "findSectionByID sections (SectionID p) = Some (sec0, sIdx)" and
    fr: "findRowByID (Rows sec0) (RowID p) = Some (row, rIdx)" and
    r0: "0 \<le> ?scir" and
    r1: "?scir < int (length (FlattenInstructions (Instructions row)))" and
    pm: "posMatches (FlattenInstructions (Instructions row) ! nat ?scir) p"
    by (auto simp: cursorInvariant_def Let_def split: option.splits)
  let ?flat = "FlattenInstructions (Instructions row)"
  let ?cur = "FindFlatIndex ?flat p"
  have l: "loaded db sid session p sections sec0 sIdx row rIdx"
    using s t g fs fr by (simp add: loaded_def)
  have sidp: "SessionID p = sid" using g by (rule GetProgress_SessionID)
  from r0 r1 have "nat ?scir < length ?flat" by simp
  from FindFlatIndex_found [OF this pm] obtain j where
    j: "j < length ?flat" "?cur = int j" by blast
  from fs have sec: "sec0 \<in> set sections" "PatternSection.ID sec0 = SectionID p"
    by (auto dest!: findSectionByID_Some)
  let ?goal = ?thesis
  have saved: "\<And>q. SessionID q = sid \<Longrightarrow> cursorInvariant sections q \<Longrightarrow>
      UndoProgress db sid = undoCommit db session sid q \<Longrightarrow> ?goal"
  proof -
    fix q assume q: "SessionID q = sid" "cursorInvariant sections q"
      "UndoProgress db sid = undoCommit db session sid q"
    from undoCommit_cursor [OF g q(1), of session] obtain db2 where
      "undoCommit db session sid q = (Inr (), db2)" "GetProgress db2 sid = Inr q" by blast
    with q a show ?goal by auto
  qed
  show ?thesis
  proof (cases "?cur > 0")
    case True
    let ?q = "p\<lparr>WorkProgress.InstructionID := StitchPos.InstructionID (?flat ! nat (?cur - 1)),
        WorkProgress.StitchIndex := StitchPos.StitchIndex (?flat ! nat (?cur - 1)),
        WorkProgress.GroupRepeatIndex := StitchPos.GroupRepeatIndex (?flat ! nat (?cur - 1)),
        StitchesCompletedInRow := ?cur - 1\<rparr>"
    have "cursorInvariant sections ?q"
      using True j by (intro cursorInvariant_same_row [OF fs fr]) (simp_all add: posMatches_def)
    with undo_within_row [OF l True] sidp show ?thesis
      by (intro saved [of ?q]) simp_all
  next
    case nA: False
    from j have ne: "?flat \<noteq> []" by auto
    then have last: "nat (int (length ?flat) - 1) = length ?flat - 1" by simp
    show ?thesis
    proof (cases "RowRepeatIndex p > 0")
      case True
      let ?q = "setToLastStitch (p\<lparr>RowRepeatIndex := RowRepeatIndex p - 1\<rparr>) ?flat"
      have "cursorInvariant sections ?q"
        using ne last by (intro cursorInvariant_same_row [OF fs fr])
          (simp_all add: posMatches_def setToLastStitch_def Let_def)
      with undo_previous_repeat [OF l nA True] sidp show ?thesis
        by (intro saved [of ?q]) (simp_all add: setToLastStitch_def Let_def)
    next
      case nB: False
      show ?thesis
      proof (cases "rIdx > 0 \<and>
            FlattenInstructions (Instructions (Rows sec0 ! nat (rIdx - 1))) \<noteq> []")
        case True
        let ?r = "Rows sec0 ! nat (rIdx - 1)"
        let ?q = "lastUnitCursor (SessionID p) sec0 ?r"
        from fr True have "?r \<in> set (Rows sec0)"
          by (auto dest!: findRowByID_Some intro!: nth_mem)
        with True wf sec have "cursorInvariant sections ?q"
          by (intro cursorInvariant_lastUnit) (simp_all add: nonEmptyRow_def)
        with True undo_previous_row [OF l nA nB] sidp show ?thesis
          by (intro saved [of ?q]) (simp_all add: lastUnitCursor_def Let_def)
      next
        case False
        note x = undo_section_start [OF l nA nB False]
        show ?thesis
        proof (cases "lastNonEmptyRow (take (nat sIdx) sections)")
          case None
          with x a have "db' = db" by simp
          with g inv show ?thesis by auto
        next
          case (Some sr)
          obtain s' r' where sr: "sr = (s', r')" by (cases sr)
          let ?q = "lastUnitCursor (SessionID p) s' r'"
          from Some sr have "s' \<in> set sections" "r' \<in> set (Rows s')" "nonEmptyRow r'"
            by (auto dest!: lastNonEmptyRow_member dest: in_set_takeD)
          with wf have "cursorInvariant sections ?q" by (intro cursorInvariant_lastUnit)
          with Some sr x sidp show ?thesis
            by (intro saved [of ?q]) (simp_all add: lastUnitCursor_def Let_def)
        qed
      qed
    qed
  qed
qed

section \<open>Positions: what Advance computes, and how many units remain\<close>

lemma emptyRow_nonEmpty: "emptyRow r \<longleftrightarrow> \<not> nonEmptyRow r"
  by (simp add: emptyRow_def nonEmptyRow_def)

lemma Not_nonEmptyRow: "(Not \<circ> nonEmptyRow) = emptyRow"
  by (auto simp: emptyRow_nonEmpty)

lemma find_nonEmptyRow:
  "find nonEmptyRow rows = (case dropWhile emptyRow rows of [] \<Rightarrow> None | r # rs \<Rightarrow> Some r)"
  by (simp add: find_dropWhile Not_nonEmptyRow)

lemma emptySection_find: "emptySection s \<longleftrightarrow> find nonEmptyRow (Rows s) = None"
  by (auto simp: emptySection_def find_None_iff list_all_iff emptyRow_nonEmpty)

lemma emptySection_dropWhile: "emptySection s \<longleftrightarrow> dropWhile emptyRow (Rows s) = []"
  by (auto simp: emptySection_def list_all_iff dropWhile_eq_Nil_conv)

lemma initialPosition_Nil [simp]: "initialPosition [] = None"
  by (simp add: initialPosition_def)

lemma initialPosition_Cons_empty:
  "emptySection s \<Longrightarrow>
     initialPosition (s # secs) =
       map_option (\<lambda>p. p\<lparr>secsBefore := s # secsBefore p\<rparr>) (initialPosition secs)"
proof -
  assume e: "emptySection s"
  show ?thesis
  proof (cases "dropWhile emptySection secs")
    case Nil
    with e show ?thesis by (simp add: initialPosition_def del: dropWhile_eq_Nil_conv)
  next
    case (Cons s' ss)
    with e show ?thesis
      by (cases "dropWhile emptyRow (Rows s')")
         (simp_all add: initialPosition_def del: dropWhile_eq_Nil_conv)
  qed
qed

lemma initialPosition_Cons_nonempty:
  "\<not> emptySection s \<Longrightarrow> dropWhile emptyRow (Rows s) = r # rs \<Longrightarrow>
     initialPosition (s # secs) =
       Some \<lparr>secsBefore = [], curSection = s, secsAfter = secs,
             rowsBefore = takeWhile emptyRow (Rows s), curRow = r, rowsAfter = rs,
             repeatIdx = 0, unitIdx = 0\<rparr>"
  by (simp add: initialPosition_def)

lemma firstNonEmptyRow_initial:
  "firstNonEmptyRow secs = map_option (\<lambda>p. (curSection p, curRow p)) (initialPosition secs)"
proof (induction secs)
  case Nil
  then show ?case by simp
next
  case (Cons s secs)
  show ?case
  proof (cases "emptySection s")
    case True
    then have "find nonEmptyRow (Rows s) = None" by (simp add: emptySection_find)
    with True Cons show ?thesis
      by (simp add: firstNonEmptyRow_Cons initialPosition_Cons_empty option.map_comp comp_def)
  next
    case False
    then obtain r rs where d: "dropWhile emptyRow (Rows s) = r # rs"
      by (cases "dropWhile emptyRow (Rows s)")
         (simp_all add: emptySection_dropWhile del: dropWhile_eq_Nil_conv)
    with False show ?thesis
      by (simp add: firstNonEmptyRow_Cons initialPosition_Cons_nonempty find_nonEmptyRow)
  qed
qed

lemma initialPosition_Some:
  assumes "initialPosition secs = Some p"
  shows "secs = secsBefore p @ curSection p # secsAfter p"
    and "Rows (curSection p) = rowsBefore p @ curRow p # rowsAfter p"
    and "list_all emptySection (secsBefore p)"
    and "list_all emptyRow (rowsBefore p)"
    and "\<not> emptyRow (curRow p)"
    and "repeatIdx p = 0" and "unitIdx p = 0"
proof -
  from assms obtain s ss r rs where
    d1: "dropWhile emptySection secs = s # ss" and
    d2: "dropWhile emptyRow (Rows s) = r # rs" and
    p: "p = \<lparr>secsBefore = takeWhile emptySection secs, curSection = s,
              secsAfter = ss, rowsBefore = takeWhile emptyRow (Rows s), curRow = r,
              rowsAfter = rs, repeatIdx = 0, unitIdx = 0\<rparr>"
    by (auto simp: initialPosition_def simp del: dropWhile_eq_Nil_conv split: list.splits)
  from d1 have "secs = takeWhile emptySection secs @ s # ss"
    by (simp add: dropWhile_eq_Cons_conv)
  with p show "secs = secsBefore p @ curSection p # secsAfter p" by simp
  from d2 have "Rows s = takeWhile emptyRow (Rows s) @ r # rs" "\<not> emptyRow r"
    by (simp_all add: dropWhile_eq_Cons_conv)
  with p show "Rows (curSection p) = rowsBefore p @ curRow p # rowsAfter p"
    "\<not> emptyRow (curRow p)" by simp_all
  from p show "list_all emptySection (secsBefore p)" "list_all emptyRow (rowsBefore p)"
    by (auto simp: list_all_iff dest: set_takeWhileD)
  from p show "repeatIdx p = 0" "unitIdx p = 0" by simp_all
qed

lemma initialPosition_None: "initialPosition secs = None \<longleftrightarrow> list_all emptySection secs"
proof (induction secs)
  case Nil
  then show ?case by simp
next
  case (Cons s secs)
  show ?case
  proof (cases "emptySection s")
    case True
    with Cons show ?thesis by (simp add: initialPosition_Cons_empty)
  next
    case False
    then obtain r rs where d: "dropWhile emptyRow (Rows s) = r # rs"
      by (cases "dropWhile emptyRow (Rows s)")
         (simp_all add: emptySection_dropWhile del: dropWhile_eq_Nil_conv)
    with False show ?thesis by (simp add: initialPosition_Cons_nonempty)
  qed
qed

lemma wellFormedTree_row:
  assumes "wellFormedTree sections" "s \<in> set sections" "r \<in> set (Rows s)"
  shows "1 \<le> RepeatCount r" "distinct (FlattenInstructions (Instructions r))"
  using assms
  by (auto simp: wellFormedTree_def Flatten_is_spec intro: distinct_flatten_spec)

lemma position_lookup:
  assumes wf: "wellFormedTree sections" and pos: "positionIn sections pos"
  shows "findSectionByID sections (SectionID (cursorOf sid pos)) =
           Some (curSection pos, int (length (secsBefore pos)))"
    and "findRowByID (Rows (curSection pos)) (RowID (cursorOf sid pos)) =
           Some (curRow pos, int (length (rowsBefore pos)))"
    and "FindFlatIndex (FlattenInstructions (Instructions (curRow pos))) (cursorOf sid pos) =
           int (unitIdx pos)"
proof -
  from pos have dec: "sections = secsBefore pos @ curSection pos # secsAfter pos"
    "Rows (curSection pos) = rowsBefore pos @ curRow pos # rowsAfter pos"
    "unitIdx pos < length (FlattenInstructions (Instructions (curRow pos)))"
    by (simp_all add: positionIn_def)
  from wf dec(1) have "distinct (map PatternSection.ID (secsBefore pos @ curSection pos # secsAfter pos))"
    by (simp add: wellFormedTree_def wellFormedIDs_def)
  from findSectionByID_at [OF this] dec(1)
  show "findSectionByID sections (SectionID (cursorOf sid pos)) =
           Some (curSection pos, int (length (secsBefore pos)))"
    by (simp add: cursorOf_def Let_def)
  from dec(1) have mem: "curSection pos \<in> set sections" by simp
  with wf have "distinct (map Row.ID (Rows (curSection pos)))"
    by (simp add: wellFormedTree_def wellFormedIDs_def)
  with dec(2) have "distinct (map Row.ID (rowsBefore pos @ curRow pos # rowsAfter pos))"
    by simp
  from findRowByID_at [OF this] dec(2)
  show "findRowByID (Rows (curSection pos)) (RowID (cursorOf sid pos)) =
           Some (curRow pos, int (length (rowsBefore pos)))"
    by (simp add: cursorOf_def Let_def)
  from dec(2) have "curRow pos \<in> set (Rows (curSection pos))" by simp
  with wf mem have "distinct (FlattenInstructions (Instructions (curRow pos)))"
    by (rule wellFormedTree_row)
  then show "FindFlatIndex (FlattenInstructions (Instructions (curRow pos))) (cursorOf sid pos) =
           int (unitIdx pos)"
    using dec(3) by (rule FindFlatIndex_distinct) (simp add: cursorOf_def Let_def posMatches_def)
qed

lemma cursorOf_simps [simp]:
  "SessionID (cursorOf sid pos) = sid"
  "SectionID (cursorOf sid pos) = PatternSection.ID (curSection pos)"
  "RowID (cursorOf sid pos) = Row.ID (curRow pos)"
  "RowRepeatIndex (cursorOf sid pos) = int (repeatIdx pos)"
  "StitchesCompletedInRow (cursorOf sid pos) = int (unitIdx pos)"
  by (simp_all add: cursorOf_def Let_def)

lemma firstUnitCursor_cursorOf:
  "repeatIdx p = 0 \<Longrightarrow> unitIdx p = 0 \<Longrightarrow>
     firstUnitCursor sid (curSection p) (curRow p) = cursorOf sid p"
  by (simp add: firstUnitCursor_def cursorOf_def Let_def)

lemma advance_position:
  assumes wf: "wellFormedTree sections"
    and s: "FindSessionByID db sid = Inr session" and active: "\<not> Completed session"
    and t: "LoadPatternFull db (PatternID session) = Inr sections"
    and g: "GetProgress db sid = Inr (cursorOf sid pos)"
    and pos: "positionIn sections pos"
  shows "AdvanceProgress db sid =
     (case nextPosition pos of
        None \<Rightarrow> (Inr True, MarkSessionCompleted db sid)
      | Some pos' \<Rightarrow> (Inr False, saveProgress db (cursorOf sid pos')))"
proof -
  let ?p = "cursorOf sid pos"
  let ?flat = "FlattenInstructions (Instructions (curRow pos))"
  let ?sIdx = "int (length (secsBefore pos))"
  let ?rIdx = "int (length (rowsBefore pos))"
  note lk = position_lookup [OF wf pos, of sid]
  have l: "loaded db sid session ?p sections (curSection pos) ?sIdx (curRow pos) ?rIdx"
    using s t g lk by (simp add: loaded_def)
  from pos have dec: "sections = secsBefore pos @ curSection pos # secsAfter pos"
    "Rows (curSection pos) = rowsBefore pos @ curRow pos # rowsAfter pos"
    "unitIdx pos < length ?flat"
    by (simp_all add: positionIn_def)
  have cur: "FindFlatIndex ?flat ?p = int (unitIdx pos)" by (rule lk(3))
  show ?thesis
  proof (cases "unitIdx pos + 1 < length ?flat")
    case True
    then have a: "FindFlatIndex ?flat ?p + 1 < int (length ?flat)" by (simp add: cur)
    have n: "nat (int (unitIdx pos) + 1) = unitIdx pos + 1" by simp
    have "?p\<lparr>WorkProgress.InstructionID := StitchPos.InstructionID (?flat ! (unitIdx pos + 1)),
        WorkProgress.StitchIndex := StitchPos.StitchIndex (?flat ! (unitIdx pos + 1)),
        WorkProgress.GroupRepeatIndex := StitchPos.GroupRepeatIndex (?flat ! (unitIdx pos + 1)),
        StitchesCompletedInRow := int (unitIdx pos) + 1\<rparr> =
      cursorOf sid (pos\<lparr>unitIdx := unitIdx pos + 1\<rparr>)"
      by (intro WorkProgress.equality) (simp_all add: cursorOf_def Let_def)
    with advance_within_row [OF l active a] True show ?thesis
      by (simp add: nextPosition_def cur n del: cursorOf_simps)
  next
    case nA: False
    then have a: "\<not> FindFlatIndex ?flat ?p + 1 < int (length ?flat)" by (simp add: cur)
    from dec(3) have ne: "?flat \<noteq> []" by auto
    show ?thesis
    proof (cases "int (repeatIdx pos) + 1 < RepeatCount (curRow pos)")
      case True
      then have b: "RowRepeatIndex ?p + 1 < RepeatCount (curRow pos)" by simp
      have "setToFirstStitch (?p\<lparr>StitchesCompletedInRow := 0,
            RowRepeatIndex := RowRepeatIndex ?p + 1\<rparr>) ?flat =
        cursorOf sid (pos\<lparr>repeatIdx := repeatIdx pos + 1, unitIdx := 0\<rparr>)"
        using ne by (intro WorkProgress.equality)
          (simp_all add: cursorOf_def Let_def setToFirstStitch_def)
      with advance_next_repeat [OF l active a b] nA True show ?thesis
        by (simp add: nextPosition_def del: cursorOf_simps)
    next
      case nB: False
      then have b: "\<not> RowRepeatIndex ?p + 1 < RepeatCount (curRow pos)" by simp
      have nextrow: "?rIdx + 1 < int (length (Rows (curSection pos))) \<longleftrightarrow> rowsAfter pos \<noteq> []"
        using dec(2) by auto
      have nth: "rowsAfter pos \<noteq> [] \<Longrightarrow>
          Rows (curSection pos) ! nat (?rIdx + 1) = hd (rowsAfter pos)"
        using dec(2) by (simp add: nat_add_distrib nth_append hd_conv_nth)
      show ?thesis
      proof (cases "rowsAfter pos \<noteq> [] \<and> \<not> emptyRow (hd (rowsAfter pos))")
        case True
        let ?pos' = "pos\<lparr>rowsBefore := rowsBefore pos @ [curRow pos],
                       curRow := hd (rowsAfter pos), rowsAfter := tl (rowsAfter pos),
                       repeatIdx := 0, unitIdx := 0\<rparr>"
        from True nextrow nth have c: "?rIdx + 1 < int (length (Rows (curSection pos)))"
          "FlattenInstructions (Instructions (Rows (curSection pos) ! nat (?rIdx + 1))) \<noteq> []"
          by (simp_all add: emptyRow_def)
        have "firstUnitCursor (SessionID ?p) (curSection pos)
            (Rows (curSection pos) ! nat (?rIdx + 1)) = cursorOf sid ?pos'"
          using True nth firstUnitCursor_cursorOf [of ?pos' sid] by simp
        with advance_next_row [OF l active a b c] nA nB True show ?thesis
          by (simp add: nextPosition_def del: cursorOf_simps)
      next
        case False
        with nextrow nth have c: "\<not> (?rIdx + 1 < int (length (Rows (curSection pos))) \<and>
            FlattenInstructions (Instructions (Rows (curSection pos) ! nat (?rIdx + 1))) \<noteq> [])"
          by (auto simp: emptyRow_def)
        have dr: "drop (nat (?sIdx + 1)) sections = secsAfter pos"
          by (subst dec(1)) (simp add: nat_add_distrib)
        note x = advance_section_exhausted [OF l active a b c]
        from False have nC: "(rowsAfter pos \<noteq> [] \<and> \<not> emptyRow (hd (rowsAfter pos))) \<longleftrightarrow> False"
          by blast
        show ?thesis
        proof (cases "initialPosition (secsAfter pos)")
          case None
          with x dr nA nB show ?thesis
            by (simp add: nextPosition_def firstNonEmptyRow_initial nC del: cursorOf_simps)
        next
          case (Some p')
          let ?pos' = "p'\<lparr>secsBefore := secsBefore pos @ curSection pos # secsBefore p'\<rparr>"
          from initialPosition_Some(6,7) [OF Some]
          have "firstUnitCursor (SessionID ?p) (curSection p') (curRow p') = cursorOf sid ?pos'"
            using firstUnitCursor_cursorOf [of ?pos' sid] by simp
          with x dr nA nB Some show ?thesis
            by (simp add: nextPosition_def firstNonEmptyRow_initial nC del: cursorOf_simps)
        qed
      qed
    qed
  qed
qed

lemma nextPosition_positionIn:
  assumes wf: "wellFormedTree sections" and pos: "positionIn sections pos"
    and n: "nextPosition pos = Some pos'"
  shows "positionIn sections pos'"
proof -
  let ?flat = "FlattenInstructions (Instructions (curRow pos))"
  from pos have dec: "sections = secsBefore pos @ curSection pos # secsAfter pos"
    "Rows (curSection pos) = rowsBefore pos @ curRow pos # rowsAfter pos"
    "int (repeatIdx pos) < RepeatCount (curRow pos)"
    "unitIdx pos < length ?flat"
    by (simp_all add: positionIn_def)
  show ?thesis
  proof (cases "unitIdx pos + 1 < length ?flat")
    case True
    with n have "pos' = pos\<lparr>unitIdx := unitIdx pos + 1\<rparr>" by (simp add: nextPosition_def)
    with True dec show ?thesis by (simp add: positionIn_def)
  next
    case nA: False
    show ?thesis
    proof (cases "int (repeatIdx pos) + 1 < RepeatCount (curRow pos)")
      case True
      with n nA have "pos' = pos\<lparr>repeatIdx := repeatIdx pos + 1, unitIdx := 0\<rparr>"
        by (simp add: nextPosition_def)
      moreover from dec(4) have "?flat \<noteq> []" by auto
      ultimately show ?thesis using True dec by (simp add: positionIn_def)
    next
      case nB: False
      show ?thesis
      proof (cases "rowsAfter pos \<noteq> [] \<and> \<not> emptyRow (hd (rowsAfter pos))")
        case True
        with n nA nB have p': "pos' = pos\<lparr>rowsBefore := rowsBefore pos @ [curRow pos],
                       curRow := hd (rowsAfter pos), rowsAfter := tl (rowsAfter pos),
                       repeatIdx := 0, unitIdx := 0\<rparr>"
          by (simp add: nextPosition_def)
        from True dec have "hd (rowsAfter pos) \<in> set (Rows (curSection pos))"
          "curSection pos \<in> set sections" by simp_all
        with wf have "1 \<le> RepeatCount (hd (rowsAfter pos))"
          using wellFormedTree_row(1) by blast
        with True dec p' show ?thesis by (simp add: positionIn_def emptyRow_def)
      next
        case False
        then have nC: "(rowsAfter pos \<noteq> [] \<and> \<not> emptyRow (hd (rowsAfter pos))) \<longleftrightarrow> False"
          by blast
        from n nA nB obtain p where i: "initialPosition (secsAfter pos) = Some p"
          and p': "pos' = p\<lparr>secsBefore := secsBefore pos @ curSection pos # secsBefore p\<rparr>"
          by (auto simp: nextPosition_def nC)
        note ip = initialPosition_Some [OF i]
        from ip(1) dec(1) have s: "sections = secsBefore pos' @ curSection pos' # secsAfter pos'"
          by (simp add: p')
        then have "curSection p \<in> set sections" by (simp add: p')
        moreover from ip(2) have "curRow p \<in> set (Rows (curSection p))" by simp
        ultimately have "1 \<le> RepeatCount (curRow p)"
          using wf wellFormedTree_row(1) by blast
        with s ip show ?thesis by (simp add: positionIn_def p' emptyRow_def)
      qed
    qed
  qed
qed

lemma runUnits_simps [simp]:
  "runUnits [] = 0"
  "emptyRow r \<Longrightarrow> runUnits (r # rs) = 0"
  "\<not> emptyRow r \<Longrightarrow> runUnits (r # rs) = rowUnits r + runUnits rs"
  by (simp_all add: runUnits_def)

lemma sectionUnits_empty: "emptySection s \<Longrightarrow> sectionUnits s = 0"
proof -
  assume "emptySection s"
  then have "dropWhile emptyRow (Rows s) = []" by (simp only: emptySection_dropWhile)
  then show ?thesis unfolding sectionUnits_def by (simp only: runUnits_simps)
qed

lemma visitedUnits_empty: "list_all emptySection secs \<Longrightarrow> visitedUnits secs = 0"
  by (induction secs) (simp_all add: visitedUnits_def sectionUnits_empty)

lemma visitedUnits_append: "visitedUnits (xs @ ys) = visitedUnits xs + visitedUnits ys"
  by (simp add: visitedUnits_def)

lemma visitedUnits_Cons: "visitedUnits (s # ss) = sectionUnits s + visitedUnits ss"
  by (simp add: visitedUnits_def)

lemma remaining_secsBefore [simp]: "remaining (p\<lparr>secsBefore := x\<rparr>) = remaining p"
  by (simp add: remaining_def)

lemma initialPosition_remaining:
  assumes i: "initialPosition secs = Some p" and rc: "1 \<le> RepeatCount (curRow p)"
  shows "visitedUnits secs = remaining p"
proof -
  note ip = initialPosition_Some [OF i]
  from i obtain s ss r rs where
    d1: "dropWhile emptySection secs = s # ss" and
    d2: "dropWhile emptyRow (Rows s) = r # rs" and
    p: "p = \<lparr>secsBefore = takeWhile emptySection secs, curSection = s,
              secsAfter = ss, rowsBefore = takeWhile emptyRow (Rows s), curRow = r,
              rowsAfter = rs, repeatIdx = 0, unitIdx = 0\<rparr>"
    by (auto simp: initialPosition_def simp del: dropWhile_eq_Nil_conv split: list.splits)
  from ip(5) p have ne: "\<not> emptyRow r" by simp
  from ip(1) have "visitedUnits secs =
      visitedUnits (secsBefore p) + sectionUnits (curSection p) + visitedUnits (secsAfter p)"
    by (subst ip(1)) (simp add: visitedUnits_append visitedUnits_Cons)
  also have "visitedUnits (secsBefore p) = 0" using ip(3) by (rule visitedUnits_empty)
  also have "sectionUnits (curSection p) = rowUnits r + runUnits rs"
    using p d2 ne by (simp add: sectionUnits_def)
  also have "rowUnits r = length (FlattenInstructions (Instructions r)) +
      (nat (RepeatCount r) - 1) * length (FlattenInstructions (Instructions r))"
  proof -
    from rc p have "nat (RepeatCount r) = Suc (nat (RepeatCount r) - 1)" by simp
    then show ?thesis unfolding rowUnits_def by (metis mult_Suc)
  qed
  finally show ?thesis using p by (simp add: remaining_def)
qed

lemma remaining_next:
  assumes wf: "wellFormedTree sections" and pos: "positionIn sections pos"
    and n: "nextPosition pos = Some pos'"
  shows "remaining pos = remaining pos' + 1"
proof -
  let ?flat = "FlattenInstructions (Instructions (curRow pos))"
  from pos have dec: "sections = secsBefore pos @ curSection pos # secsAfter pos"
    "Rows (curSection pos) = rowsBefore pos @ curRow pos # rowsAfter pos"
    "int (repeatIdx pos) < RepeatCount (curRow pos)"
    "unitIdx pos < length ?flat"
    by (simp_all add: positionIn_def)
  note pin = nextPosition_positionIn [OF wf pos n]
  show ?thesis
  proof (cases "unitIdx pos + 1 < length ?flat")
    case True
    with n have "pos' = pos\<lparr>unitIdx := unitIdx pos + 1\<rparr>" by (simp add: nextPosition_def)
    with True show ?thesis by (simp add: remaining_def)
  next
    case nA: False
    with dec(4) have k: "length ?flat - unitIdx pos = 1" by simp
    show ?thesis
    proof (cases "int (repeatIdx pos) + 1 < RepeatCount (curRow pos)")
      case True
      with n nA have p': "pos' = pos\<lparr>repeatIdx := repeatIdx pos + 1, unitIdx := 0\<rparr>"
        by (simp add: nextPosition_def)
      from True have "nat (RepeatCount (curRow pos)) - 1 - repeatIdx pos =
          Suc (nat (RepeatCount (curRow pos)) - 1 - (repeatIdx pos + 1))" by simp
      then have "(nat (RepeatCount (curRow pos)) - 1 - repeatIdx pos) * length ?flat =
          length ?flat + (nat (RepeatCount (curRow pos)) - 1 - (repeatIdx pos + 1)) * length ?flat"
        by (metis mult_Suc)
      with k show ?thesis by (simp add: remaining_def p')
    next
      case nB: False
      with dec(3) have r: "nat (RepeatCount (curRow pos)) - 1 - repeatIdx pos = 0" by simp
      show ?thesis
      proof (cases "rowsAfter pos \<noteq> [] \<and> \<not> emptyRow (hd (rowsAfter pos))")
        case True
        with n nA nB have p': "pos' = pos\<lparr>rowsBefore := rowsBefore pos @ [curRow pos],
                       curRow := hd (rowsAfter pos), rowsAfter := tl (rowsAfter pos),
                       repeatIdx := 0, unitIdx := 0\<rparr>"
          by (simp add: nextPosition_def)
        let ?r2 = "hd (rowsAfter pos)"
        from True have ra: "rowsAfter pos = ?r2 # tl (rowsAfter pos)" by simp
        from pin p' have "0 < RepeatCount ?r2" by (simp add: positionIn_def)
        then have "nat (RepeatCount ?r2) = Suc (nat (RepeatCount ?r2) - 1)" by simp
        then have u: "rowUnits ?r2 = length (FlattenInstructions (Instructions ?r2)) +
            (nat (RepeatCount ?r2) - 1) * length (FlattenInstructions (Instructions ?r2))"
          unfolding rowUnits_def by (metis mult_Suc)
        from True have "runUnits (rowsAfter pos) = rowUnits ?r2 + runUnits (tl (rowsAfter pos))"
          by (cases "rowsAfter pos") simp_all
        with k r u show ?thesis by (simp add: remaining_def p')
      next
        case False
        then have nC: "(rowsAfter pos \<noteq> [] \<and> \<not> emptyRow (hd (rowsAfter pos))) \<longleftrightarrow> False"
          by blast
        from n nA nB obtain p where i: "initialPosition (secsAfter pos) = Some p"
          and p': "pos' = p\<lparr>secsBefore := secsBefore pos @ curSection pos # secsBefore p\<rparr>"
          by (auto simp: nextPosition_def nC)
        from False have z: "runUnits (rowsAfter pos) = 0"
          by (cases "rowsAfter pos") simp_all
        from pin p' have "1 \<le> RepeatCount (curRow p)" by (simp add: positionIn_def)
        from initialPosition_remaining [OF i this] k r z show ?thesis
          by (simp add: remaining_def [of pos] p')
      qed
    qed
  qed
qed

lemma remaining_last:
  assumes pos: "positionIn sections pos" and n: "nextPosition pos = None"
  shows "remaining pos = 1"
proof -
  let ?flat = "FlattenInstructions (Instructions (curRow pos))"
  from pos have dec: "int (repeatIdx pos) < RepeatCount (curRow pos)"
    "unitIdx pos < length ?flat"
    by (simp_all add: positionIn_def)
  from n have nA: "\<not> unitIdx pos + 1 < length ?flat"
    by (auto simp: nextPosition_def split: if_splits)
  with n have nB: "\<not> int (repeatIdx pos) + 1 < RepeatCount (curRow pos)"
    by (auto simp: nextPosition_def split: if_splits)
  with n nA have nC: "\<not> (rowsAfter pos \<noteq> [] \<and> \<not> emptyRow (hd (rowsAfter pos)))"
    by (auto simp: nextPosition_def split: if_splits)
  then have nC': "(rowsAfter pos \<noteq> [] \<and> \<not> emptyRow (hd (rowsAfter pos))) \<longleftrightarrow> False"
    by blast
  from n nA nB have "initialPosition (secsAfter pos) = None"
    by (simp add: nextPosition_def nC')
  then have "visitedUnits (secsAfter pos) = 0"
    by (simp add: initialPosition_None visitedUnits_empty)
  moreover from nC have "runUnits (rowsAfter pos) = 0"
    by (cases "rowsAfter pos") simp_all
  moreover from nA dec(2) have "length ?flat - unitIdx pos = 1" by simp
  moreover from nB dec(1) have "nat (RepeatCount (curRow pos)) - 1 - repeatIdx pos = 0" by simp
  ultimately show ?thesis by (simp add: remaining_def)
qed

lemma advance_on_completed:
  assumes "FindSessionByID db sid = Inr session"
  shows "AdvanceProgress (MarkSessionCompleted db sid) sid = (Inr True, MarkSessionCompleted db sid)"
  using FindSessionByID_Mark [OF assms] by (simp add: AdvanceProgress_def)

lemma advanceTimes_completes:
  assumes wf: "wellFormedTree sections"
    and s: "FindSessionByID db sid = Inr session" and active: "\<not> Completed session"
    and t: "LoadPatternFull db (PatternID session) = Inr sections"
    and g: "GetProgress db sid = Inr (cursorOf sid pos)"
    and pos: "positionIn sections pos"
    and r: "remaining pos = n"
  shows "\<exists>dbN. advanceTimes n db sid = (replicate (n - 1) (Inr False) @ [Inr True], dbN) \<and>
           AdvanceProgress dbN sid = (Inr True, dbN)"
  using s t g pos r
proof (induction n arbitrary: db pos)
  case 0
  from "0.prems"(4) have "0 < remaining pos" by (simp add: remaining_def positionIn_def)
  with "0.prems"(5) show ?case by simp
next
  case (Suc m)
  note a = advance_position [OF wf Suc.prems(1) active Suc.prems(2) Suc.prems(3) Suc.prems(4)]
  show ?case
  proof (cases "nextPosition pos")
    case None
    from remaining_last [OF Suc.prems(4) None] Suc.prems(5) have "m = 0" by simp
    with a None advance_on_completed [OF Suc.prems(1)] show ?thesis by simp
  next
    case (Some pos')
    let ?db1 = "saveProgress db (cursorOf sid pos')"
    from a Some have a1: "AdvanceProgress db sid = (Inr False, ?db1)" by simp
    from remaining_next [OF wf Suc.prems(4) Some] Suc.prems(5) have m: "remaining pos' = m"
      by simp
    have pin: "positionIn sections pos'" by (rule nextPosition_positionIn [OF wf Suc.prems(4) Some])
    then have "0 < remaining pos'" by (simp add: remaining_def positionIn_def)
    with m have mpos: "0 < m" by simp
    have s1: "FindSessionByID ?db1 sid = Inr session" using Suc.prems(1) by simp
    have t1: "LoadPatternFull ?db1 (PatternID session) = Inr sections" using Suc.prems(2) by simp
    have g1: "GetProgress ?db1 sid = Inr (cursorOf sid pos')"
      by (rule GetProgress_saveProgress [OF Suc.prems(3)]) simp
    from Suc.IH [OF s1 t1 g1 pin m] obtain dbN where
      n: "advanceTimes m ?db1 sid = (replicate (m - 1) (Inr False) @ [Inr True], dbN)"
      "AdvanceProgress dbN sid = (Inr True, dbN)" by blast
    from mpos have "Inr False # replicate (m - 1) (Inr False) = replicate m (Inr False)"
      by (cases m) simp_all
    with a1 n show ?thesis by simp
  qed
qed

lemma rowUnits_empty: "emptyRow r \<Longrightarrow> rowUnits r = 0"
  by (simp add: rowUnits_def emptyRow_def)

lemma units_all_empty:
  "list_all emptyRow rs \<Longrightarrow> sum_list (map rowUnits rs) = 0"
  by (induction rs) (simp_all add: rowUnits_empty)

lemma rowsContiguous_tail: "rowsContiguous (r # rs) \<Longrightarrow> rowsContiguous rs"
  by (cases rs) simp_all

lemma units_after_nonempty:
  "rowsContiguous (r # rs) \<Longrightarrow> \<not> emptyRow r \<Longrightarrow> sum_list (map rowUnits rs) = runUnits rs"
proof (induction rs arbitrary: r)
  case Nil
  then show ?case by simp
next
  case (Cons r2 rs)
  show ?case
  proof (cases "emptyRow r2")
    case True
    with Cons.prems have "list_all emptyRow rs" by simp
    with True show ?thesis by (simp add: units_all_empty rowUnits_empty)
  next
    case False
    from Cons.prems have "rowsContiguous (r2 # rs)" by simp
    from Cons.IH [OF this False] False show ?thesis by simp
  qed
qed

lemma units_contiguous:
  "rowsContiguous rows \<Longrightarrow> sum_list (map rowUnits rows) = runUnits (dropWhile emptyRow rows)"
proof (induction rows)
  case Nil
  then show ?case by simp
next
  case (Cons r rs)
  show ?case
  proof (cases "emptyRow r")
    case True
    from Cons.prems have "rowsContiguous rs" by (rule rowsContiguous_tail)
    with Cons.IH True show ?thesis by (simp add: rowUnits_empty)
  next
    case False
    with units_after_nonempty [OF Cons.prems False] show ?thesis by simp
  qed
qed

lemma visitedUnits_total:
  "noSkippedRows sections \<Longrightarrow> visitedUnits sections = totalUnits sections"
  by (induction sections)
     (simp_all add: noSkippedRows_def visitedUnits_def totalUnits_def sectionUnits_def
        units_contiguous)

lemma find_append_new:
  "find P xs = None \<Longrightarrow> P x \<Longrightarrow> find P (xs @ [x]) = Some x"
  by (induction xs) (auto split: if_splits)

lemma init_position:
  assumes wf: "wellFormedTree sections"
    and g: "GetProgress db0 sid = Inl ErrNoRows"
    and i: "InitProgress db0 sid sections = (Inr (), db1)"
  shows "\<exists>p0. initialPosition sections = Some p0 \<and> positionIn sections p0 \<and>
           GetProgress db1 sid = Inr (cursorOf sid p0) \<and>
           FindSessionByID db1 sid = FindSessionByID db0 sid \<and>
           LoadPatternFull db1 = LoadPatternFull db0"
proof -
  from g have nf: "find (\<lambda>r. SessionID r = sid) (work_progress db0) = None"
    by (simp add: GetProgress_def split: option.splits)
  from i obtain s r where f: "firstNonEmptyRow sections = Some (s, r)"
    and ins: "insertProgress db0 (firstUnitCursor sid s r) = (Inr (), db1)"
    by (auto simp: InitProgress_def initSections_first split: option.splits)
  from ins nf have db1: "db1 = db0\<lparr>work_progress := work_progress db0 @ [firstUnitCursor sid s r]\<rparr>"
    by (simp add: insertProgress_def firstUnitCursor_def)
  from f obtain p0 where p0: "initialPosition sections = Some p0"
    "s = curSection p0" "r = curRow p0"
    by (auto simp: firstNonEmptyRow_initial)
  note ip = initialPosition_Some [OF p0(1)]
  from ip(1,2) have "curSection p0 \<in> set sections" "curRow p0 \<in> set (Rows (curSection p0))"
    by simp_all
  with wf have "1 \<le> RepeatCount (curRow p0)" using wellFormedTree_row(1) by blast
  with ip have pin: "positionIn sections p0" by (simp add: positionIn_def emptyRow_def)
  from ip(6,7) have c: "firstUnitCursor sid s r = cursorOf sid p0"
    unfolding p0(2,3) by (rule firstUnitCursor_cursorOf)
  from nf have "find (\<lambda>r. SessionID r = sid) (work_progress db0 @ [cursorOf sid p0]) =
      Some (cursorOf sid p0)"
    by (rule find_append_new) simp
  then have "GetProgress db1 sid = Inr (cursorOf sid p0)"
    by (simp add: GetProgress_def db1 c)
  moreover have "FindSessionByID db1 sid = FindSessionByID db0 sid"
    by (simp add: FindSessionByID_def db1)
  moreover have "LoadPatternFull db1 = LoadPatternFull db0"
    by (simp add: LoadPatternFull_def db1 fun_eq_iff)
  ultimately show ?thesis using p0(1) pin by blast
qed

section \<open>Positions: what Undo computes, and the inverse laws\<close>

lemma finalPosition_Nil [simp]: "finalPosition [] = None"
  by (simp add: finalPosition_def)


























section \<open>Claims about the flattener\<close>

text \<open>
  C5. \<open>FlattenInstructions\<close> expands every group repeat by repeat, never interleaved:
  its result is the concatenation, over the instructions in order, of the units of each
  instruction, where a group contributes, for \<open>groupRepeatIndex\<close> 0..groupRepeat-1 in
  turn, the units of its children in order (\<open>count\<close> units each, \<open>stitchIndex\<close>
  0..count-1) and a top-level atomic instruction contributes \<open>count\<close> units with
  \<open>groupRepeatIndex\<close> 0. A group with repeat 2 and children sc x 1, inc x 1 flattens
  to sc(0,0), inc(0,0), sc(0,1), inc(0,1).
\<close>

theorem flatten_expands_groups_repeat_by_repeat:
  "FlattenInstructions instrs = flatten_spec instrs \<and>
   FlattenInstructions
       [RowInstruction g n True 2
          [RowInstruction sc 1 False r1 cs1, RowInstruction inc 1 False r2 cs2]] =
     [\<lparr>StitchPos.InstructionID = sc, StitchIndex = 0, GroupRepeatIndex = 0\<rparr>,
      \<lparr>StitchPos.InstructionID = inc, StitchIndex = 0, GroupRepeatIndex = 0\<rparr>,
      \<lparr>StitchPos.InstructionID = sc, StitchIndex = 0, GroupRepeatIndex = 1\<rparr>,
      \<lparr>StitchPos.InstructionID = inc, StitchIndex = 0, GroupRepeatIndex = 1\<rparr>] \<and>
   FlattenInstructions [RowInstruction a m False r cs] =
     map (\<lambda>si. \<lparr>StitchPos.InstructionID = a, StitchIndex = si, GroupRepeatIndex = 0\<rparr>)
       [0..m - 1]"
proof (intro conjI)
  show "FlattenInstructions instrs = flatten_spec instrs"
    by (rule Flatten_is_spec)
  show "FlattenInstructions
       [RowInstruction g n True 2
          [RowInstruction sc 1 False r1 cs1, RowInstruction inc 1 False r2 cs2]] =
     [\<lparr>StitchPos.InstructionID = sc, StitchIndex = 0, GroupRepeatIndex = 0\<rparr>,
      \<lparr>StitchPos.InstructionID = inc, StitchIndex = 0, GroupRepeatIndex = 0\<rparr>,
      \<lparr>StitchPos.InstructionID = sc, StitchIndex = 0, GroupRepeatIndex = 1\<rparr>,
      \<lparr>StitchPos.InstructionID = inc, StitchIndex = 0, GroupRepeatIndex = 1\<rparr>]"
    by (simp add: Flatten_is_spec flatten_spec_def instructionUnits_def groupRepeatUnits_def
          unitsOf_def upto_rec1)
  show "FlattenInstructions [RowInstruction a m False r cs] =
     map (\<lambda>si. \<lparr>StitchPos.InstructionID = a, StitchIndex = si, GroupRepeatIndex = 0\<rparr>)
       [0..m - 1]"
    by (simp add: Flatten_is_spec flatten_spec_def instructionUnits_def unitsOf_def)
qed

text \<open>
  C10. When all instruction identifiers of a row (top-level and group children) are
  pairwise distinct, the flattened sequence has no two equal positions, so a cursor
  triple that matches the position at index \<open>i\<close> is found by \<open>FindFlatIndex\<close> at
  exactly \<open>i\<close>.
\<close>

theorem flatten_positions_distinct:
  assumes "distinct (allInstructionIDs instrs)"
  shows "distinct (FlattenInstructions instrs) \<and>
    (\<forall>i<length (FlattenInstructions instrs).
       posMatches (FlattenInstructions instrs ! i) p \<longrightarrow>
       FindFlatIndex (FlattenInstructions instrs) p = int i)"
  using assms
  by (simp add: Flatten_is_spec distinct_flatten_spec FindFlatIndex_distinct)

theorem flatten_positions_distinct_witness:
  "distinct (allInstructionIDs
      [RowInstruction 1 2 False 1 [],
       RowInstruction 2 1 True 2 [RowInstruction 3 1 False 1 [], RowInstruction 4 1 False 1 []]]) \<and>
   distinct (FlattenInstructions
      [RowInstruction 1 2 False 1 [],
       RowInstruction 2 1 True 2 [RowInstruction 3 1 False 1 [], RowInstruction 4 1 False 1 []]]) \<and>
   FindFlatIndex (FlattenInstructions
      [RowInstruction 1 2 False 1 [],
       RowInstruction 2 1 True 2 [RowInstruction 3 1 False 1 [], RowInstruction 4 1 False 1 []]])
     \<lparr>SessionID = 7, SectionID = 1, RowID = 1, RowRepeatIndex = 0, InstructionID = 3,
      StitchIndex = 0, GroupRepeatIndex = 1, StitchesCompletedInRow = 4\<rparr> = 4"
proof -
  let ?instrs = "[RowInstruction 1 2 False 1 [],
       RowInstruction 2 1 True 2 [RowInstruction 3 1 False 1 [], RowInstruction 4 1 False 1 []]]"
  let ?p = "\<lparr>SessionID = 7, SectionID = 1, RowID = 1, RowRepeatIndex = 0, InstructionID = 3,
      StitchIndex = 0, GroupRepeatIndex = 1, StitchesCompletedInRow = 4\<rparr>"
  have d: "distinct (allInstructionIDs ?instrs)"
    by (simp add: allInstructionIDs_def)
  have f: "FlattenInstructions ?instrs =
     [\<lparr>StitchPos.InstructionID = 1, StitchIndex = 0, GroupRepeatIndex = 0\<rparr>,
      \<lparr>StitchPos.InstructionID = 1, StitchIndex = 1, GroupRepeatIndex = 0\<rparr>,
      \<lparr>StitchPos.InstructionID = 3, StitchIndex = 0, GroupRepeatIndex = 0\<rparr>,
      \<lparr>StitchPos.InstructionID = 4, StitchIndex = 0, GroupRepeatIndex = 0\<rparr>,
      \<lparr>StitchPos.InstructionID = 3, StitchIndex = 0, GroupRepeatIndex = 1\<rparr>,
      \<lparr>StitchPos.InstructionID = 4, StitchIndex = 0, GroupRepeatIndex = 1\<rparr>]"
    by (simp add: Flatten_is_spec flatten_spec_def instructionUnits_def groupRepeatUnits_def
          unitsOf_def upto_rec1)
  from flatten_positions_distinct [OF d, of ?p]
  have "distinct (FlattenInstructions ?instrs)"
    and "\<forall>i<length (FlattenInstructions ?instrs).
       posMatches (FlattenInstructions ?instrs ! i) ?p \<longrightarrow>
       FindFlatIndex (FlattenInstructions ?instrs) ?p = int i"
    by blast+
  from this(2) have "FindFlatIndex (FlattenInstructions ?instrs) ?p = int 4"
    by (rule allE [of _ 4]) (simp add: f posMatches_def)
  with d \<open>distinct (FlattenInstructions ?instrs)\<close> show ?thesis by simp
qed



section \<open>Claims about initialisation and Advance\<close>

text \<open>
  C7. \<open>InitProgress\<close> scans the sections in order and the rows of each section in
  order. For a session that has no cursor record yet it inserts one, on the first stitch
  position of the first row that flattens to a non-empty list, with
  \<open>RowRepeatIndex\<close> 0 and \<open>StitchesCompletedInRow\<close> 0. When no row of the pattern
  yields a stitch position it returns the error \<open>NoInstructions\<close> and leaves the stored
  state as it was, so no cursor record is created.
\<close>

theorem init_progress_first_nonempty_row:
  "InitProgress db sid sections =
     (case firstNonEmptyRow sections of
        None \<Rightarrow> (Inl NoInstructions, db)
      | Some (s, r) \<Rightarrow>
          (if GetProgress db sid = Inl ErrNoRows
           then (Inr (),
                 db\<lparr>work_progress := work_progress db @
                   [\<lparr>SessionID = sid, SectionID = PatternSection.ID s, RowID = Row.ID r,
                     RowRepeatIndex = 0,
                     InstructionID =
                       StitchPos.InstructionID (FlattenInstructions (Instructions r) ! 0),
                     StitchIndex =
                       StitchPos.StitchIndex (FlattenInstructions (Instructions r) ! 0),
                     GroupRepeatIndex =
                       StitchPos.GroupRepeatIndex (FlattenInstructions (Instructions r) ! 0),
                     StitchesCompletedInRow = 0\<rparr>]\<rparr>)
           else (Inl UniqueViolation, db))) \<and>
   (firstNonEmptyRow sections = None \<longleftrightarrow>
      (\<forall>s\<in>set sections. \<forall>r\<in>set (Rows s). FlattenInstructions (Instructions r) = []))"
proof -
  have "GetProgress db sid = Inl ErrNoRows \<longleftrightarrow>
      find (\<lambda>r. SessionID r = sid) (work_progress db) = None"
    by (simp add: GetProgress_def split: option.splits)
  then show ?thesis
    unfolding firstNonEmptyRow_None_iff [symmetric]
    by (simp add: InitProgress_def initSections_first firstUnitCursor_def insertProgress_def
        split: option.splits)
qed

theorem init_progress_first_nonempty_row_witness:
  "GetProgress scenario_db 7 = Inl ErrNoRows \<and>
   InitProgress scenario_db 7 scenario_sections =
     (Inr (), scenario_db\<lparr>work_progress := work_progress scenario_db @
        [\<lparr>SessionID = 7, SectionID = 1, RowID = 10, RowRepeatIndex = 0, InstructionID = 100,
          StitchIndex = 0, GroupRepeatIndex = 0, StitchesCompletedInRow = 0\<rparr>]\<rparr>) \<and>
   InitProgress scenario_db 7
       [\<lparr>PatternSection.ID = 1, Rows = [\<lparr>Row.ID = 10, RepeatCount = 1, Instructions = []\<rparr>]\<rparr>] =
     (Inl NoInstructions, scenario_db)"
proof -
  let ?empty = "[\<lparr>PatternSection.ID = 1, Rows = [\<lparr>Row.ID = 10, RepeatCount = 1, Instructions = []\<rparr>]\<rparr>]"
  have f: "firstNonEmptyRow scenario_sections =
      Some (\<lparr>PatternSection.ID = 1, Rows = [scenario_rowA, scenario_rowB]\<rparr>, scenario_rowA)"
    by code_simp
  have e: "\<forall>s\<in>set ?empty. \<forall>r\<in>set (Rows s). FlattenInstructions (Instructions r) = []"
    by (simp add: FlattenInstructions_def)
  have i: "Row.ID scenario_rowA = 10" by code_simp
  have g: "GetProgress scenario_db 7 = Inl ErrNoRows" by code_simp
  from init_progress_first_nonempty_row [of scenario_db 7 scenario_sections]
       init_progress_first_nonempty_row [of scenario_db 7 ?empty] e
  show ?thesis by (simp add: f scenario_rowA_flat i g)
qed

text \<open>
  C9. When \<open>AdvanceProgress\<close> reports completion, the table of cursor records is as
  it was before the call: the cursor of the session keeps every field of its last
  position, and the session is completed.
\<close>

theorem advance_completion_keeps_cursor:
  assumes "AdvanceProgress db sid = (Inr True, db')"
  shows "work_progress db' = work_progress db \<and> GetProgress db' sid = GetProgress db sid \<and>
         (\<exists>s. FindSessionByID db' sid = Inr s \<and> Completed s)"
  using AdvanceProgress_True_cases [OF assms]
  by (auto simp: FindSessionByID_Mark)

theorem advance_completion_keeps_cursor_witness:
  "fst (AdvanceProgress last_unit_db 7) = Inr True \<and>
   work_progress (snd (AdvanceProgress last_unit_db 7)) = work_progress last_unit_db \<and>
   GetProgress (snd (AdvanceProgress last_unit_db 7)) 7 =
     Inr \<lparr>SessionID = 7, SectionID = 1, RowID = 11, RowRepeatIndex = 0, InstructionID = 103,
          StitchIndex = 0, GroupRepeatIndex = 1, StitchesCompletedInRow = 3\<rparr> \<and>
   FindSessionByID (snd (AdvanceProgress last_unit_db 7)) 7 =
     Inr \<lparr>WorkSession.ID = 7, PatternID = 5, Completed = True\<rparr>"
proof -
  have f: "fst (AdvanceProgress last_unit_db 7) = Inr True" by code_simp
  then have h: "AdvanceProgress last_unit_db 7 = (Inr True, snd (AdvanceProgress last_unit_db 7))"
    by (metis prod.collapse)
  have g: "GetProgress last_unit_db 7 =
     Inr \<lparr>SessionID = 7, SectionID = 1, RowID = 11, RowRepeatIndex = 0, InstructionID = 103,
          StitchIndex = 0, GroupRepeatIndex = 1, StitchesCompletedInRow = 3\<rparr>"
    by code_simp
  have s: "FindSessionByID (snd (AdvanceProgress last_unit_db 7)) 7 =
     Inr \<lparr>WorkSession.ID = 7, PatternID = 5, Completed = True\<rparr>"
    by code_simp
  from advance_completion_keeps_cursor [OF h] f g s show ?thesis by simp
qed

text \<open>
  C1. The specification asks for an integrity error when the triple of the cursor is not
  in the flattened sequence of its row, with the cursor not moved. \<open>FindFlatIndex\<close>
  returns -1 for such a cursor, as its comment says, and \<open>AdvanceProgress\<close> and
  \<open>UndoProgress\<close> use the -1 without a test, while they return an error for a section
  or a row that is missing. In the scenario of section 8, with the cursor on an
  instruction 999 that Row A does not have and one stitch completed,
  \<open>AdvanceProgress\<close> returns not completed and no error, and the cursor goes back to
  the first stitch position of Row A. With such a cursor in Row B and two stitches
  completed, \<open>AdvanceProgress\<close> puts the cursor on the first stitch position of Row B,
  and \<open>UndoProgress\<close> leaves the row for the last stitch position of Row A.
\<close>

theorem advance_missing_unit_scenario:
  "GetProgress stale_db 7 =
     Inr \<lparr>SessionID = 7, SectionID = 1, RowID = 10, RowRepeatIndex = 0, InstructionID = 999,
          StitchIndex = 0, GroupRepeatIndex = 0, StitchesCompletedInRow = 1\<rparr> \<and>
   findSectionByID scenario_sections 1 =
     Some (\<lparr>PatternSection.ID = 1, Rows = [scenario_rowA, scenario_rowB]\<rparr>, 0) \<and>
   findRowByID [scenario_rowA, scenario_rowB] 10 = Some (scenario_rowA, 0) \<and>
   FindFlatIndex (FlattenInstructions (Instructions scenario_rowA))
     \<lparr>SessionID = 7, SectionID = 1, RowID = 10, RowRepeatIndex = 0, InstructionID = 999,
      StitchIndex = 0, GroupRepeatIndex = 0, StitchesCompletedInRow = 1\<rparr> = -1 \<and>
   fst (AdvanceProgress stale_db 7) = Inr False \<and>
   GetProgress (snd (AdvanceProgress stale_db 7)) 7 =
     Inr \<lparr>SessionID = 7, SectionID = 1, RowID = 10, RowRepeatIndex = 0, InstructionID = 100,
          StitchIndex = 0, GroupRepeatIndex = 0, StitchesCompletedInRow = 0\<rparr> \<and>
   GetProgress stale_rowB_db 7 =
     Inr \<lparr>SessionID = 7, SectionID = 1, RowID = 11, RowRepeatIndex = 0, InstructionID = 999,
          StitchIndex = 0, GroupRepeatIndex = 0, StitchesCompletedInRow = 2\<rparr> \<and>
   fst (AdvanceProgress stale_rowB_db 7) = Inr False \<and>
   GetProgress (snd (AdvanceProgress stale_rowB_db 7)) 7 =
     Inr \<lparr>SessionID = 7, SectionID = 1, RowID = 11, RowRepeatIndex = 0, InstructionID = 102,
          StitchIndex = 0, GroupRepeatIndex = 0, StitchesCompletedInRow = 0\<rparr> \<and>
   fst (UndoProgress stale_rowB_db 7) = Inr () \<and>
   GetProgress (snd (UndoProgress stale_rowB_db 7)) 7 =
     Inr \<lparr>SessionID = 7, SectionID = 1, RowID = 10, RowRepeatIndex = 0, InstructionID = 100,
          StitchIndex = 2, GroupRepeatIndex = 0, StitchesCompletedInRow = 2\<rparr>"
  by code_simp

text \<open>
  C6. When the cursor is on the last stitch position of the last repeat of its row and
  the row right after it in the section flattens to nothing, what \<open>AdvanceProgress\<close>
  does is decided by the sections after the current one alone: it moves to the first
  non-empty row of the later sections, and the cursor read back is on the first stitch
  position of that row, or it completes the session when there is none, and the cursor
  read back is the one before the call. No later row of the current section is looked at,
  non-empty or not. The stored \<open>RowRepeatIndex\<close> is below \<open>2 ^ 63 - 1\<close>, so that
  the sum \<open>RowRepeatIndex + 1\<close> of the code does not wrap.
\<close>

theorem advance_skips_section_after_empty_row:
  assumes "FindSessionByID db sid = Inr session" "\<not> Completed session"
    and "GetProgress db sid = Inr progress"
    and "LoadPatternFull db (PatternID session) = Inr sections"
    and "findSectionByID sections (SectionID progress) = Some (section, sIdx)"
    and "findRowByID (Rows section) (RowID progress) = Some (row, rIdx)"
    and "\<not> FindFlatIndex (FlattenInstructions (Instructions row)) progress + 1
           < int (length (FlattenInstructions (Instructions row)))"
    and "RowRepeatIndex progress < 2 ^ 63 - 1"
    and "\<not> RowRepeatIndex progress + 1 < RepeatCount row"
    and "rIdx + 1 < int (length (Rows section))"
    and "FlattenInstructions (Instructions (Rows section ! nat (rIdx + 1))) = []"
  shows "AdvanceProgress db sid =
     (case firstNonEmptyRow (drop (nat (sIdx + 1)) sections) of
        Some (s', r') \<Rightarrow> (Inr False, saveProgress db (firstUnitCursor (SessionID progress) s' r'))
      | None \<Rightarrow> (Inr True, MarkSessionCompleted db sid)) \<and>
   GetProgress (snd (AdvanceProgress db sid)) sid =
     (case firstNonEmptyRow (drop (nat (sIdx + 1)) sections) of
        Some (s', r') \<Rightarrow>
          Inr \<lparr>SessionID = sid, SectionID = PatternSection.ID s', RowID = Row.ID r',
               RowRepeatIndex = 0,
               InstructionID =
                 StitchPos.InstructionID (FlattenInstructions (Instructions r') ! 0),
               StitchIndex =
                 StitchPos.StitchIndex (FlattenInstructions (Instructions r') ! 0),
               GroupRepeatIndex =
                 StitchPos.GroupRepeatIndex (FlattenInstructions (Instructions r') ! 0),
               StitchesCompletedInRow = 0\<rparr>
      | None \<Rightarrow> Inr progress)"
proof -
  have l: "loaded db sid session progress sections section sIdx row rIdx"
    using assms by (simp add: loaded_def)
  from assms(11) have "\<not> (rIdx + 1 < int (length (Rows section)) \<and>
            FlattenInstructions (Instructions (Rows section ! nat (rIdx + 1))) \<noteq> [])"
    by simp
  from advance_section_exhausted [OF l assms(2) assms(7) assms(9) this]
  have a: "AdvanceProgress db sid =
     (case firstNonEmptyRow (drop (nat (sIdx + 1)) sections) of
        Some (s', r') \<Rightarrow> (Inr False, saveProgress db (firstUnitCursor (SessionID progress) s' r'))
      | None \<Rightarrow> (Inr True, MarkSessionCompleted db sid))" .
  from GetProgress_SessionID [OF assms(3)] have sid: "SessionID progress = sid" .
  have "GetProgress (snd (AdvanceProgress db sid)) sid =
     (case firstNonEmptyRow (drop (nat (sIdx + 1)) sections) of
        Some (s', r') \<Rightarrow> Inr (firstUnitCursor sid s' r')
      | None \<Rightarrow> Inr progress)"
  proof (cases "firstNonEmptyRow (drop (nat (sIdx + 1)) sections)")
    case None
    with a assms(3) show ?thesis by simp
  next
    case (Some sr)
    obtain s' r' where sr: "sr = (s', r')" by (cases sr)
    have "GetProgress (saveProgress db (firstUnitCursor sid s' r')) sid =
        Inr (firstUnitCursor sid s' r')"
      by (rule GetProgress_saveProgress [OF assms(3)]) (simp add: firstUnitCursor_def)
    with a Some sr sid show ?thesis by simp
  qed
  with a show ?thesis by (simp add: firstUnitCursor_def split: option.splits)
qed

theorem advance_skips_section_after_empty_row_witness:
  "firstNonEmptyRow (drop 1 gap_sections) =
     Some (\<lparr>PatternSection.ID = 2, Rows =
         [\<lparr>Row.ID = 13, RepeatCount = 1, Instructions = [RowInstruction 102 1 False 1 []]\<rparr>]\<rparr>,
        \<lparr>Row.ID = 13, RepeatCount = 1, Instructions = [RowInstruction 102 1 False 1 []]\<rparr>) \<and>
   AdvanceProgress gap_started_db 7 =
     (Inr False, saveProgress gap_started_db
        \<lparr>SessionID = 7, SectionID = 2, RowID = 13, RowRepeatIndex = 0, InstructionID = 102,
         StitchIndex = 0, GroupRepeatIndex = 0, StitchesCompletedInRow = 0\<rparr>) \<and>
   GetProgress (snd (AdvanceProgress gap_started_db 7)) 7 =
     Inr \<lparr>SessionID = 7, SectionID = 2, RowID = 13, RowRepeatIndex = 0, InstructionID = 102,
          StitchIndex = 0, GroupRepeatIndex = 0, StitchesCompletedInRow = 0\<rparr>"
proof -
  let ?p = "\<lparr>SessionID = 7, SectionID = 1, RowID = 10, RowRepeatIndex = 0, InstructionID = 100,
       StitchIndex = 0, GroupRepeatIndex = 0, StitchesCompletedInRow = 0\<rparr>"
  let ?s = "\<lparr>WorkSession.ID = 7, PatternID = 5, Completed = False\<rparr>"
  let ?row = "\<lparr>Row.ID = 10, RepeatCount = 1, Instructions = [RowInstruction 100 1 False 1 []]\<rparr>"
  let ?sec = "gap_sections ! 0"
  let ?r13 = "\<lparr>Row.ID = 13, RepeatCount = 1, Instructions = [RowInstruction 102 1 False 1 []]\<rparr>"
  have h1: "FindSessionByID gap_started_db 7 = Inr ?s" by code_simp
  have h2: "\<not> Completed ?s" by simp
  have h3: "GetProgress gap_started_db 7 = Inr ?p" by code_simp
  have h4: "LoadPatternFull gap_started_db (PatternID ?s) = Inr gap_sections"
    by (simp add: LoadPatternFull_def gap_started_db_def gap_db_def)
  have h5: "findSectionByID gap_sections (SectionID ?p) = Some (?sec, 0)" by code_simp
  have h6: "findRowByID (Rows ?sec) (RowID ?p) = Some (?row, 0)" by code_simp
  have h7: "\<not> FindFlatIndex (FlattenInstructions (Instructions ?row)) ?p + 1
           < int (length (FlattenInstructions (Instructions ?row)))" by code_simp
  have hb: "RowRepeatIndex ?p < 2 ^ 63 - 1" by simp
  have h8: "\<not> RowRepeatIndex ?p + 1 < RepeatCount ?row" by simp
  have h9: "0 + 1 < int (length (Rows ?sec))" by code_simp
  have h10: "FlattenInstructions (Instructions (Rows ?sec ! nat (0 + 1))) = []" by code_simp
  have f: "firstNonEmptyRow (drop 1 gap_sections) =
     Some (\<lparr>PatternSection.ID = 2, Rows = [?r13]\<rparr>, ?r13)" by code_simp
  have c: "firstUnitCursor 7 \<lparr>PatternSection.ID = 2, Rows = [?r13]\<rparr> ?r13 =
     \<lparr>SessionID = 7, SectionID = 2, RowID = 13, RowRepeatIndex = 0, InstructionID = 102,
         StitchIndex = 0, GroupRepeatIndex = 0, StitchesCompletedInRow = 0\<rparr>" by code_simp
  have fl: "FlattenInstructions (Instructions ?r13) =
     [\<lparr>StitchPos.InstructionID = 102, StitchIndex = 0, GroupRepeatIndex = 0\<rparr>]" by code_simp
  note t = advance_skips_section_after_empty_row [OF h1 h2 h3 h4 h5 h6 h7 hb h8 h9 h10]
  from t [THEN conjunct1] f c have a: "AdvanceProgress gap_started_db 7 =
     (Inr False, saveProgress gap_started_db
        \<lparr>SessionID = 7, SectionID = 2, RowID = 13, RowRepeatIndex = 0, InstructionID = 102,
         StitchIndex = 0, GroupRepeatIndex = 0, StitchesCompletedInRow = 0\<rparr>)" by simp
  from t [THEN conjunct2] f fl have b: "GetProgress (snd (AdvanceProgress gap_started_db 7)) 7 =
     Inr \<lparr>SessionID = 7, SectionID = 2, RowID = 13, RowRepeatIndex = 0, InstructionID = 102,
          StitchIndex = 0, GroupRepeatIndex = 0, StitchesCompletedInRow = 0\<rparr>" by simp
  from f a b show ?thesis by (simp only: simp_thms)
qed




section \<open>Claims about the cursor invariant\<close>

text \<open>
  C8. In a tree whose section identifiers are distinct and whose row identifiers are
  distinct within each section, when the cursor invariant holds before a call, it holds
  after every \<open>AdvanceProgress\<close> and every \<open>UndoProgress\<close> that returns without
  error: the cursor read back satisfies the invariant in the same tree. This covers in
  particular every call that leaves the session not completed.
\<close>

theorem cursor_invariant_preserved:
  assumes "wellFormedIDs sections"
    and "FindSessionByID db sid = Inr session"
    and "LoadPatternFull db (PatternID session) = Inr sections"
    and "GetProgress db sid = Inr p"
    and "cursorInvariant sections p"
  shows "(\<forall>completed db'. AdvanceProgress db sid = (Inr completed, db') \<longrightarrow>
            (\<exists>p'. GetProgress db' sid = Inr p' \<and> cursorInvariant sections p')) \<and>
         (\<forall>db'. UndoProgress db sid = (Inr (), db') \<longrightarrow>
            (\<exists>p'. GetProgress db' sid = Inr p' \<and> cursorInvariant sections p'))"
  using advance_keeps_invariant [OF assms] undo_keeps_invariant [OF assms] by blast

theorem cursor_invariant_preserved_witness:
  "wellFormedIDs scenario_sections \<and>
   cursorInvariant scenario_sections
     \<lparr>SessionID = 7, SectionID = 1, RowID = 10, RowRepeatIndex = 0, InstructionID = 100,
      StitchIndex = 2, GroupRepeatIndex = 0, StitchesCompletedInRow = 2\<rparr> \<and>
   AdvanceProgress row_end_db 7 = (Inr False, snd (AdvanceProgress row_end_db 7)) \<and>
   GetProgress (snd (AdvanceProgress row_end_db 7)) 7 =
     Inr \<lparr>SessionID = 7, SectionID = 1, RowID = 11, RowRepeatIndex = 0, InstructionID = 102,
          StitchIndex = 0, GroupRepeatIndex = 0, StitchesCompletedInRow = 0\<rparr> \<and>
   cursorInvariant scenario_sections
     \<lparr>SessionID = 7, SectionID = 1, RowID = 11, RowRepeatIndex = 0, InstructionID = 102,
      StitchIndex = 0, GroupRepeatIndex = 0, StitchesCompletedInRow = 0\<rparr> \<and>
   UndoProgress row_end_db 7 = (Inr (), snd (UndoProgress row_end_db 7)) \<and>
   GetProgress (snd (UndoProgress row_end_db 7)) 7 =
     Inr \<lparr>SessionID = 7, SectionID = 1, RowID = 10, RowRepeatIndex = 0, InstructionID = 100,
          StitchIndex = 1, GroupRepeatIndex = 0, StitchesCompletedInRow = 1\<rparr> \<and>
   cursorInvariant scenario_sections
     \<lparr>SessionID = 7, SectionID = 1, RowID = 10, RowRepeatIndex = 0, InstructionID = 100,
      StitchIndex = 1, GroupRepeatIndex = 0, StitchesCompletedInRow = 1\<rparr>"
proof -
  let ?p = "\<lparr>SessionID = 7, SectionID = 1, RowID = 10, RowRepeatIndex = 0, InstructionID = 100,
      StitchIndex = 2, GroupRepeatIndex = 0, StitchesCompletedInRow = 2\<rparr>"
  let ?s = "\<lparr>WorkSession.ID = 7, PatternID = 5, Completed = False\<rparr>"
  have h1: "wellFormedIDs scenario_sections" by code_simp
  have h2: "FindSessionByID row_end_db 7 = Inr ?s" by code_simp
  have h3: "LoadPatternFull row_end_db (PatternID ?s) = Inr scenario_sections"
    by (simp add: LoadPatternFull_def row_end_db_def scenario_db_def)
  have h4: "GetProgress row_end_db 7 = Inr ?p" by code_simp
  have h5: "cursorInvariant scenario_sections ?p" by code_simp
  have "fst (AdvanceProgress row_end_db 7) = Inr False" by code_simp
  then have a: "AdvanceProgress row_end_db 7 = (Inr False, snd (AdvanceProgress row_end_db 7))"
    by (metis prod.collapse)
  have "fst (UndoProgress row_end_db 7) = Inr ()" by code_simp
  then have u: "UndoProgress row_end_db 7 = (Inr (), snd (UndoProgress row_end_db 7))"
    by (metis prod.collapse)
  have ga: "GetProgress (snd (AdvanceProgress row_end_db 7)) 7 =
     Inr \<lparr>SessionID = 7, SectionID = 1, RowID = 11, RowRepeatIndex = 0, InstructionID = 102,
          StitchIndex = 0, GroupRepeatIndex = 0, StitchesCompletedInRow = 0\<rparr>" by code_simp
  have gu: "GetProgress (snd (UndoProgress row_end_db 7)) 7 =
     Inr \<lparr>SessionID = 7, SectionID = 1, RowID = 10, RowRepeatIndex = 0, InstructionID = 100,
          StitchIndex = 1, GroupRepeatIndex = 0, StitchesCompletedInRow = 1\<rparr>" by code_simp
  note t = cursor_invariant_preserved [OF h1 h2 h3 h4 h5]
  from t a have "\<exists>p'. GetProgress (snd (AdvanceProgress row_end_db 7)) 7 = Inr p' \<and>
      cursorInvariant scenario_sections p'" by blast
  with ga have ia: "cursorInvariant scenario_sections
     \<lparr>SessionID = 7, SectionID = 1, RowID = 11, RowRepeatIndex = 0, InstructionID = 102,
      StitchIndex = 0, GroupRepeatIndex = 0, StitchesCompletedInRow = 0\<rparr>" by simp
  from t u have "\<exists>p'. GetProgress (snd (UndoProgress row_end_db 7)) 7 = Inr p' \<and>
      cursorInvariant scenario_sections p'" by blast
  with gu have iu: "cursorInvariant scenario_sections
     \<lparr>SessionID = 7, SectionID = 1, RowID = 10, RowRepeatIndex = 0, InstructionID = 100,
      StitchIndex = 1, GroupRepeatIndex = 0, StitchesCompletedInRow = 1\<rparr>" by simp
  from h1 h5 a ga ia u gu iu show ?thesis by blast
qed

section \<open>Claims about completion\<close>

text \<open>
  C4, as the specification states it, does not hold. The pattern \<open>gap_sections\<close> is
  well formed and has three stitch units, one of them in a row that follows an empty
  row of the first section. Advance never visits that row: the second call already
  reports completion.
\<close>

theorem advance_completes_counterexample:
  "wellFormedTree gap_sections \<and> totalUnits gap_sections = 3 \<and>
   GetProgress gap_db 7 = Inl ErrNoRows \<and>
   fst (InitProgress gap_db 7 gap_sections) = Inr () \<and>
   fst (advanceTimes 3 (snd (InitProgress gap_db 7 gap_sections)) 7) =
     [Inr False, Inr True, Inr True]"
  by code_simp

text \<open>
  C4, amended. Let N count the stitch units of the rows Advance visits (in each section
  the consecutive non-empty rows from the section's first non-empty row on, over all
  their repeats). For every well-formed pattern and every fresh active session started
  by \<open>InitProgress\<close>, N is positive, the first N - 1 calls of \<open>AdvanceProgress\<close>
  return not completed, the N-th returns completed, and one more call returns
  completed and leaves the stored state as it is. N is the total number of stitch units
  of the pattern when no section has a non-empty row after an empty row that follows a
  non-empty row.
\<close>

theorem advance_completes_after_visited_units:
  assumes "wellFormedTree sections"
    and "FindSessionByID db0 sid = Inr session" "\<not> Completed session"
    and "LoadPatternFull db0 (PatternID session) = Inr sections"
    and "GetProgress db0 sid = Inl ErrNoRows"
    and "InitProgress db0 sid sections = (Inr (), db1)"
  shows "(\<exists>dbN. advanceTimes (visitedUnits sections) db1 sid =
              (replicate (visitedUnits sections - 1) (Inr False) @ [Inr True], dbN) \<and>
            AdvanceProgress dbN sid = (Inr True, dbN)) \<and>
         0 < visitedUnits sections \<and>
         (noSkippedRows sections \<longrightarrow> visitedUnits sections = totalUnits sections)"
proof -
  from init_position [OF assms(1) assms(5) assms(6)] obtain p0 where
    p0: "initialPosition sections = Some p0" "positionIn sections p0"
      "GetProgress db1 sid = Inr (cursorOf sid p0)"
      "FindSessionByID db1 sid = FindSessionByID db0 sid"
      "LoadPatternFull db1 = LoadPatternFull db0" by blast
  from p0(2) have "1 \<le> RepeatCount (curRow p0)" by (simp add: positionIn_def)
  from initialPosition_remaining [OF p0(1) this] have r: "remaining p0 = visitedUnits sections"
    by simp
  from p0(2) have "0 < remaining p0" by (simp add: remaining_def positionIn_def)
  with r have "0 < visitedUnits sections" by simp
  moreover have "\<exists>dbN. advanceTimes (visitedUnits sections) db1 sid =
              (replicate (visitedUnits sections - 1) (Inr False) @ [Inr True], dbN) \<and>
            AdvanceProgress dbN sid = (Inr True, dbN)"
    using assms(2,4) p0(4,5)
    by (intro advanceTimes_completes [OF assms(1) _ assms(3) _ p0(3) p0(2) r]) simp_all
  ultimately show ?thesis using visitedUnits_total by blast
qed

theorem advance_completes_after_visited_units_witness:
  "wellFormedTree scenario_sections \<and> noSkippedRows scenario_sections \<and>
   visitedUnits scenario_sections = 7 \<and> totalUnits scenario_sections = 7 \<and>
   (\<exists>dbN. advanceTimes 7 (snd (InitProgress scenario_db 7 scenario_sections)) 7 =
       ([Inr False, Inr False, Inr False, Inr False, Inr False, Inr False, Inr True], dbN) \<and>
      AdvanceProgress dbN 7 = (Inr True, dbN))"
proof -
  let ?s = "\<lparr>WorkSession.ID = 7, PatternID = 5, Completed = False\<rparr>"
  have h1: "wellFormedTree scenario_sections" by code_simp
  have h2: "FindSessionByID scenario_db 7 = Inr ?s" by code_simp
  have h3: "\<not> Completed ?s" by simp
  have h4: "LoadPatternFull scenario_db (PatternID ?s) = Inr scenario_sections"
    by (simp add: LoadPatternFull_def scenario_db_def)
  have h5: "GetProgress scenario_db 7 = Inl ErrNoRows" by code_simp
  have "fst (InitProgress scenario_db 7 scenario_sections) = Inr ()" by code_simp
  then have h6: "InitProgress scenario_db 7 scenario_sections =
      (Inr (), snd (InitProgress scenario_db 7 scenario_sections))"
    by (metis prod.collapse)
  have v: "visitedUnits scenario_sections = 7" by code_simp
  have n: "noSkippedRows scenario_sections" by code_simp
  have r: "replicate (7 - 1) (Inr False :: error + bool) @ [Inr True] =
      [Inr False, Inr False, Inr False, Inr False, Inr False, Inr False, Inr True]"
    by code_simp
  from advance_completes_after_visited_units [OF h1 h2 h3 h4 h5 h6] n
  show ?thesis unfolding v r using h1 by simp
qed

section \<open>Claims about Advance and Undo as inverses\<close>




end
